theory Spec2Isabelle
  imports
    Main
    "HOL-Library.Char_ord"
    "HOL-Library.List_Lexorder"
    "HOL-Library.Product_Lexorder"
    "HOL-Library.Option_ord"
    "HOL-Library.Multiset"
begin

section \<open>Values and strings of the analysis script\<close>

text \<open>
  The script \<^verbatim>\<open>CodigoAnalise.py\<close> reads one CSV table with pandas and transforms it in a
  straight line. A Python \<^verbatim>\<open>str\<close> is modelled as a list of code points below 256 (Latin-1),
  which covers every literal of the script; a raw CSV cell is an integer or a text, and a
  missing cell (NaN, NaT) is \<open>None\<close>.
\<close>

datatype cell = Num int | Txt string

text \<open>\<^verbatim>\<open>str(n)\<close> for an integer: decimal digits, with a minus sign when negative.\<close>

definition digit_char :: "nat \<Rightarrow> char" where
  "digit_char d = char_of (48 + d)"

fun str_nat :: "nat \<Rightarrow> string" where
  "str_nat n = (if n < 10 then [digit_char n] else str_nat (n div 10) @ [digit_char (n mod 10)])"

declare str_nat.simps [simp del]

definition str_int :: "int \<Rightarrow> string" where
  "str_int i = (if i < 0 then CHR ''-'' # str_nat (nat (- i)) else str_nat (nat i))"

text \<open>
  A numeric column of a pandas table is \<^verbatim>\<open>int64\<close> when none of its values is missing
  and \<^verbatim>\<open>float64\<close> otherwise. \<^verbatim>\<open>Series.astype(str)\<close> prints a whole number of an
  \<^verbatim>\<open>int64\<close> column as \<^verbatim>\<open>str(n)\<close> and of a \<^verbatim>\<open>float64\<close> column with \<^verbatim>\<open>.0\<close> after it
  (for the whole numbers below \<open>10\<^sup>1\<^sup>6\<close>, which a \<^verbatim>\<open>float64\<close> holds exactly up to
  \<open>2\<^sup>5\<^sup>3\<close>). The numbers of the file are taken to be whole numbers written without a
  decimal point, as the codes and counts of the hospital records are.
\<close>

datatype dtype = Int64 | Float64

definition str_number :: "dtype \<Rightarrow> int \<Rightarrow> string" where
  "str_number t n = (case t of Int64 \<Rightarrow> str_int n | Float64 \<Rightarrow> str_int n @ ''.0'')"

text \<open>
  The number that a string of decimal digits denotes (used to show that different numbers
  print differently).
\<close>

definition digits_value :: "string \<Rightarrow> nat" where
  "digits_value s = foldl (\<lambda>acc c. 10 * acc + (of_char c - 48)) 0 s"

text \<open>\<^verbatim>\<open>str(v)\<close> on a non-missing cell.\<close>

fun str_cell :: "cell \<Rightarrow> string" where
  "str_cell (Num n) = str_int n"
| "str_cell (Txt s) = s"

text \<open>
  \<^verbatim>\<open>str.lower()\<close> on code points below 256: the ASCII capitals and the Latin-1 capitals
  (\<open>0xC0\<close> to \<open>0xDE\<close> without the multiplication sign \<open>0xD7\<close>) move up by 32.
\<close>

definition lower_char :: "char \<Rightarrow> char" where
  "lower_char c =
     (let n = (of_char c :: nat)
      in if (65 \<le> n \<and> n \<le> 90) \<or> (192 \<le> n \<and> n \<le> 214) \<or> (216 \<le> n \<and> n \<le> 222)
         then char_of (n + 32) else c)"

definition lower :: "string \<Rightarrow> string" where
  "lower s = map lower_char s"

text \<open>\<^verbatim>\<open>kw in s\<close> on strings: \<open>kw\<close> occurs as a contiguous substring of \<open>s\<close>.\<close>

fun startswith :: "string \<Rightarrow> string \<Rightarrow> bool" where
  "startswith s [] = True"
| "startswith [] (k # ks) = False"
| "startswith (c # cs) (k # ks) = (c = k \<and> startswith cs ks)"

fun contains :: "string \<Rightarrow> string \<Rightarrow> bool" where
  "contains kw [] = (kw = [])"
| "contains kw (c # cs) = (startswith (c # cs) kw \<or> contains kw cs)"

text \<open>\<^verbatim>\<open>any(kw in s for kw in kws)\<close>.\<close>

definition any_kw_in :: "string list \<Rightarrow> string \<Rightarrow> bool" where
  "any_kw_in kws s = list_ex (\<lambda>kw. contains kw s) kws"

section \<open>Procedure categorisation\<close>

text \<open>The five category labels; the two accented letters are the code points \<open>0xED\<close> and \<open>0xE9\<close>.\<close>

definition Cirurgia_Grande :: string where
  "Cirurgia_Grande = ''Cirurgia Grande''"

definition Procedimentos_Especificos :: string where
  "Procedimentos_Especificos = ''Procedimentos Espec'' @ [CHR 0xED] @ ''ficos''"

definition Cirurgia_Media_Pequena :: string where
  "Cirurgia_Media_Pequena = ''Cirurgia M'' @ [CHR 0xE9] @ ''dia/Pequena''"

definition Outros_procedimentos :: string where
  "Outros_procedimentos = ''Outros procedimentos''"

definition Conservador :: string where
  "Conservador = ''Conservador''"

definition kw_grande :: "string list" where
  "kw_grande = [''artroplastia'', ''artrodese'', ''osteossintese'', ''reconstrucao'', ''ressec/tumor'']"

definition kw_especificos :: "string list" where
  "kw_especificos = [''artrotom'', ''sinovectomia'']"

definition kw_media_pequena :: "string list" where
  "kw_media_pequena = [''artroscopia'', ''desbridamento'', ''exerese'', ''tenorrafia'', ''capsulorrafia'']"

definition kw_outros :: "string list" where
  "kw_outros = [''drenagem'', ''biopsia'', ''puncao'', ''retirad'', ''reparacao'', ''corpo estranho'']"

definition kw_conservador :: "string list" where
  "kw_conservador = [''conservador'', ''clinico'', ''sem procedimento'', ''na'']"

text \<open>
  The first line of \<^verbatim>\<open>categorize_procedure_v2\<close>:
  \<^verbatim>\<open>str(proc_nome).lower() if pd.notna(proc_nome) else 'na'\<close>.
\<close>

definition proc_nome_lower :: "cell option \<Rightarrow> string" where
  "proc_nome_lower proc_nome = (case proc_nome of Some v \<Rightarrow> lower (str_cell v) | None \<Rightarrow> ''na'')"

text \<open>The \<^verbatim>\<open>if\<close>/\<^verbatim>\<open>elif\<close> chain of \<^verbatim>\<open>categorize_procedure_v2\<close>, in the source's order.\<close>

definition categorize_procedure_v2 :: "cell option \<Rightarrow> string" where
  "categorize_procedure_v2 proc_nome =
     (let s = proc_nome_lower proc_nome
      in if any_kw_in kw_grande s then Cirurgia_Grande
         else if any_kw_in kw_especificos s \<and> \<not> contains ''corpo estranho'' s
           then Procedimentos_Especificos
         else if any_kw_in kw_media_pequena s then Cirurgia_Media_Pequena
         else if any_kw_in kw_outros s then Outros_procedimentos
         else if any_kw_in kw_conservador s then Conservador
         else Outros_procedimentos)"

section \<open>The loaded table and the cleaning filter\<close>

text \<open>
  A row of the table after the type conversions of section 2 of the script: the numeric
  columns went through \<^verbatim>\<open>pd.to_numeric(errors='coerce')\<close>, the date columns through
  \<^verbatim>\<open>pd.to_datetime(format='%Y%m%d', errors='coerce')\<close>, and \<open>cep_str\<close> is the text made
  from \<open>CEP\<close>. A date is the day number of its midnight timestamp (days since 1970-01-01);
  the SIH numeric fields are whole numbers. \<open>None\<close> is NaN or NaT. Further columns of the
  CSV file travel in the extension part of the record.
\<close>

record loaded_row =
  idade :: "int option"
  dias_perm :: "int option"
  sexo :: "int option"
  morte :: "int option"
  nasc :: "int option"
  dt_inter :: "int option"
  dt_saida :: "int option"
  cep_str :: "string option"
  munic_res :: "cell option"
  proc_nome :: "cell option"

text \<open>\<^verbatim>\<open>df.dropna(subset=cols_to_check_na)\<close> keeps the rows with no missing value there.\<close>

definition notna_subset :: "'a loaded_row_scheme \<Rightarrow> bool" where
  "notna_subset r \<longleftrightarrow>
     idade r \<noteq> None \<and> dias_perm r \<noteq> None \<and> sexo r \<noteq> None \<and> morte r \<noteq> None
     \<and> nasc r \<noteq> None \<and> dt_inter r \<noteq> None \<and> dt_saida r \<noteq> None \<and> cep_str r \<noteq> None
     \<and> munic_res r \<noteq> None \<and> proc_nome r \<noteq> None"

text \<open>
  An elementwise comparison \<^verbatim>\<open>a >= b\<close> of pandas: false where either side is missing.
\<close>

fun ge_elem :: "int option \<Rightarrow> int option \<Rightarrow> bool" where
  "ge_elem (Some a) (Some b) = (a \<ge> b)"
| "ge_elem _ _ = False"

text \<open>
  The three filtering statements of section 2:
  \<^verbatim>\<open>df.dropna(subset=cols_to_check_na, inplace=True)\<close>,
  \<^verbatim>\<open>df = df[(df['idade'] >= 18) & (df['dias_perm'] >= 1)]\<close>,
  \<^verbatim>\<open>df = df[df['dt_saida'] >= df['dt_inter']]\<close>.
\<close>

definition cleaning :: "'a loaded_row_scheme list \<Rightarrow> 'a loaded_row_scheme list" where
  "cleaning df =
     (let df1 = filter notna_subset df;
          df2 = filter (\<lambda>r. ge_elem (idade r) (Some 18) \<and> ge_elem (dias_perm r) (Some 1)) df1
      in filter (\<lambda>r. ge_elem (dt_saida r) (dt_inter r)) df2)"

text \<open>
  The types of the two numeric columns that section 4 prints into the identity key, fixed
  when the table is loaded: \<open>sexo\<close> comes from \<^verbatim>\<open>pd.to_numeric\<close>, \<open>munic_res\<close> from
  \<^verbatim>\<open>pd.read_csv\<close>. Dropping rows later does not change the type of a column.
\<close>

record dtypes =
  sexo_dtype :: dtype
  munic_res_dtype :: dtype

definition column_dtype :: "'a option list \<Rightarrow> dtype" where
  "column_dtype col = (if None \<in> set col then Float64 else Int64)"

definition dtypes_of :: "'a loaded_row_scheme list \<Rightarrow> dtypes" where
  "dtypes_of df =
     \<lparr>sexo_dtype = column_dtype (map sexo df),
      munic_res_dtype = column_dtype (map munic_res df)\<rparr>"

section \<open>Readmission within 30 days\<close>

text \<open>
  The columns that section 4 of the script adds to the table. A column that has not been
  assigned yet, like a missing value, reads \<open>None\<close>.
\<close>

record frame_row = loaded_row +
  nasc_str :: "string option"
  ident_proxy :: "string option"
  dt_saida_anterior :: "int option"
  intervalo_dias :: "int option"
  readmitido_30d :: "int option"

type_synonym frame = "frame_row list"

definition new_frame :: "loaded_row list \<Rightarrow> frame" where
  "new_frame df =
     map (\<lambda>r. loaded_row.extend r
            (frame_row.fields None None None None None)) df"

text \<open>
  \<^verbatim>\<open>Timestamp.strftime('%Y-%m-%d')\<close> of a day number: the proleptic Gregorian date of the
  day, the month and the day of the month on two digits. The date is found from the days
  since 1 March of year 0: eras of 400 years (146097 days), centuries of 36524 days (the
  fourth has one more), cycles of four years (1461 days) and years of 365 days (the fourth
  has one more), then the month and the day within the year that starts in March. (A
  pandas timestamp lies between 1677-09-22 and 2262-04-11, the days -106751 to 106751.)
\<close>

definition civil_from_days :: "int \<Rightarrow> int \<times> int \<times> int" where
  "civil_from_days days =
     (let z = days + 719468;
          era = z div 146097;
          doe = z mod 146097;
          c = (if doe div 36524 > 3 then 3 else doe div 36524);
          doc = doe - 36524 * c;
          q = doc div 1461;
          doq = doc - 1461 * q;
          yoq = (if doq div 365 > 3 then 3 else doq div 365);
          doy = doq - 365 * yoq;
          yoe = 100 * c + 4 * q + yoq;
          mp = (5 * doy + 2) div 153;
          d = doy - (153 * mp + 2) div 5 + 1;
          m = (if mp < 10 then mp + 3 else mp - 9);
          y = yoe + era * 400 + (if m \<le> 2 then 1 else 0)
      in (y, m, d))"

text \<open>
  The day number of a calendar date (used to show that different days print differently).
\<close>

definition days_from_civil :: "int \<times> int \<times> int \<Rightarrow> int" where
  "days_from_civil ymd =
     (case ymd of (y, m, d) \<Rightarrow>
       (let y' = (if m \<le> 2 then y - 1 else y);
            era = y' div 400;
            yoe = y' mod 400;
            mp = (if m \<le> 2 then m + 9 else m - 3);
            doy = (153 * mp + 2) div 5 + d - 1;
            doe = 365 * yoe + yoe div 4 - yoe div 100 + doy
        in era * 146097 + doe - 719468))"

definition two_digits :: "int \<Rightarrow> string" where
  "two_digits n = (if n < 10 then CHR ''0'' # str_int n else str_int n)"

definition strftime_ymd :: "int \<Rightarrow> string" where
  "strftime_ymd days =
     (case civil_from_days days of (y, m, d) \<Rightarrow>
        str_int y @ ''-'' @ two_digits m @ ''-'' @ two_digits d)"

text \<open>
  \<^verbatim>\<open>Series.astype(str)\<close> on a column of type \<open>t\<close>: a number is printed as the column type
  prints it, a text stays, a missing value becomes the text \<^verbatim>\<open>nan\<close>.
\<close>

definition astype_str :: "dtype \<Rightarrow> cell option \<Rightarrow> string" where
  "astype_str t v =
     (case v of Some (Num n) \<Rightarrow> str_number t n | Some (Txt s) \<Rightarrow> s | None \<Rightarrow> ''nan'')"

text \<open>\<^verbatim>\<open>df['nasc_str'] = df['nasc'].dt.strftime('%Y-%m-%d')\<close>\<close>

definition set_nasc_str :: "frame \<Rightarrow> frame" where
  "set_nasc_str df = map (\<lambda>r. r\<lparr>nasc_str := map_option strftime_ymd (nasc r)\<rparr>) df"

text \<open>
  \<^verbatim>\<open>df['munic_res'].astype(str) + '|' + df['nasc_str'] + '|' + df['sexo'].astype(str) + '|' + df['cep_str']\<close>:
  the concatenation of string columns is missing where one of its operands is.
\<close>

definition proxy_of :: "dtypes \<Rightarrow> frame_row \<Rightarrow> string option" where
  "proxy_of dts r =
     (case (nasc_str r, cep_str r) of
        (Some n, Some c) \<Rightarrow>
          Some (astype_str (munic_res_dtype dts) (munic_res r) @ ''|'' @ n @ ''|''
                @ astype_str (sexo_dtype dts) (map_option Num (sexo r)) @ ''|'' @ c)
      | _ \<Rightarrow> None)"

definition set_ident_proxy :: "dtypes \<Rightarrow> frame \<Rightarrow> frame" where
  "set_ident_proxy dts df = map (\<lambda>r. r\<lparr>ident_proxy := proxy_of dts r\<rparr>) df"

text \<open>
  \<^verbatim>\<open>df.sort_values(by=['ident_proxy', 'dt_inter'], inplace=True)\<close>: a stable sort on the two
  columns, ascending, with missing values last (\<^verbatim>\<open>na_position='last'\<close>). Strings compare
  by code point.
\<close>

definition na_last :: "'a option \<Rightarrow> bool \<times> 'a option" where
  "na_last v = (v = None, v)"

definition sort_values :: "frame \<Rightarrow> frame" where
  "sort_values df = sort_key (\<lambda>r. (na_last (ident_proxy r), na_last (dt_inter r))) df"

text \<open>
  \<^verbatim>\<open>df['dt_saida_anterior'] = df.groupby('ident_proxy')['dt_saida'].shift(1)\<close>: every row
  receives the \<open>dt_saida\<close> of the row before it, in the order of the table, among the rows
  of the same \<open>ident_proxy\<close>; the first row of a group receives NaT, and so does a row
  whose key is missing, which belongs to no group. The argument \<open>prev\<close> maps a key to
  the \<open>dt_saida\<close> of the last row seen with this key.
\<close>

fun groupby_shift :: "(string \<rightharpoonup> int option) \<Rightarrow> frame \<Rightarrow> frame" where
  "groupby_shift prev [] = []"
| "groupby_shift prev (r # rs) =
     (case ident_proxy r of
        None \<Rightarrow> r\<lparr>dt_saida_anterior := None\<rparr> # groupby_shift prev rs
      | Some k \<Rightarrow>
          r\<lparr>dt_saida_anterior := (case prev k of None \<Rightarrow> None | Some v \<Rightarrow> v)\<rparr>
            # groupby_shift (prev(k \<mapsto> dt_saida r)) rs)"

definition set_dt_saida_anterior :: "frame \<Rightarrow> frame" where
  "set_dt_saida_anterior df = groupby_shift Map.empty df"

text \<open>\<^verbatim>\<open>df['intervalo_dias'] = np.nan\<close>\<close>

definition init_intervalo_dias :: "frame \<Rightarrow> frame" where
  "init_intervalo_dias df = map (\<lambda>r. r\<lparr>intervalo_dias := None\<rparr>) df"

text \<open>
  \<^verbatim>\<open>df.loc[mask, 'intervalo_dias'] = (df.loc[mask, 'dt_inter'] - df.loc[mask, 'dt_saida_anterior']).dt.days\<close>
  with \<^verbatim>\<open>mask = df['dt_saida_anterior'].notna()\<close>. The difference of two timestamps is a
  number of nanoseconds in 64 bits: the subtraction raises \<^verbatim>\<open>OverflowError\<close> when, in a row
  of the mask, the two midnights are more than \<open>2\<^sup>6\<^sup>3 - 1\<close> nanoseconds apart (106751 days,
  about 292 years). Otherwise every row of the mask receives the whole days between them.
\<close>

definition timedelta_overflows :: "int \<Rightarrow> bool" where
  "timedelta_overflows days \<longleftrightarrow> \<bar>days\<bar> * 86400000000000 > 9223372036854775807"

fun days_between :: "int option \<Rightarrow> int option \<Rightarrow> int option" where
  "days_between (Some a) (Some b) = Some (a - b)"
| "days_between _ _ = None"

definition subtraction_overflows :: "frame_row \<Rightarrow> bool" where
  "subtraction_overflows r =
     (case days_between (dt_inter r) (dt_saida_anterior r) of
        Some days \<Rightarrow> timedelta_overflows days
      | None \<Rightarrow> False)"

definition assign_intervalo_dias :: "frame \<Rightarrow> frame" where
  "assign_intervalo_dias df =
     map (\<lambda>r. if dt_saida_anterior r \<noteq> None
              then r\<lparr>intervalo_dias := days_between (dt_inter r) (dt_saida_anterior r)\<rparr>
              else r) df"

definition fill_intervalo_dias :: "frame \<Rightarrow> string + frame" where
  "fill_intervalo_dias df =
     (if list_ex subtraction_overflows df then Inl ''OverflowError''
      else Inr (assign_intervalo_dias df))"

text \<open>
  \<^verbatim>\<open>df['readmitido_30d'] = ((df['intervalo_dias'] >= 0) & (df['intervalo_dias'] <= 30)).astype(int)\<close>
\<close>

definition set_readmitido_30d :: "frame \<Rightarrow> frame" where
  "set_readmitido_30d df =
     map (\<lambda>r. r\<lparr>readmitido_30d :=
                  Some (if ge_elem (intervalo_dias r) (Some 0) \<and> ge_elem (Some 30) (intervalo_dias r)
                        then 1 else 0)\<rparr>) df"

text \<open>
  The statements of the \<^verbatim>\<open>try\<close> block of section 4, in order. A statement returns the
  table it leaves (\<open>Inr\<close>) or raises (\<open>Inl\<close> of the exception). The statement that computes
  \<^verbatim>\<open>mask\<close> and the four that compute and print the readmission rate leave the table as
  it is.
\<close>

definition returns :: "(frame \<Rightarrow> frame) \<Rightarrow> frame \<Rightarrow> string + frame" where
  "returns f df = Inr (f df)"

definition try_body :: "dtypes \<Rightarrow> (frame \<Rightarrow> string + frame) list" where
  "try_body dts =
     [returns set_nasc_str, returns (set_ident_proxy dts), returns sort_values,
      returns set_dt_saida_anterior, returns init_intervalo_dias, returns id,
      fill_intervalo_dias, returns set_readmitido_30d,
      returns id, returns id, returns id, returns id]"

text \<open>
  Running the statements of a \<^verbatim>\<open>try\<close> block. Besides the overflow above, an exception can
  come from the library or the machine (memory, an incompatible installation):
  \<open>fault = Some (k, e)\<close> says that statement \<open>k\<close>, when it is reached, raises the exception
  \<open>e\<close>. The statements before the one that raises have taken effect, this one and the ones
  after it have not. The result is \<open>Inl\<close> of the exception and the table at that moment, or
  \<open>Inr\<close> of the table after the last statement.
\<close>

fun run_statements ::
    "('s \<Rightarrow> 'e + 's) list \<Rightarrow> (nat \<times> 'e) option \<Rightarrow> 's \<Rightarrow> ('e \<times> 's) + 's" where
  "run_statements [] fault df = Inr df"
| "run_statements (s # ss) None df =
     (case s df of Inl e' \<Rightarrow> Inl (e', df) | Inr df' \<Rightarrow> run_statements ss None df')"
| "run_statements (s # ss) (Some (0, e)) df = Inl (e, df)"
| "run_statements (s # ss) (Some (Suc k, e)) df =
     (case s df of Inl e' \<Rightarrow> Inl (e', df) | Inr df' \<Rightarrow> run_statements ss (Some (k, e)) df')"

text \<open>What the script prints in section 4, without the formatting of the numbers.\<close>

datatype printed =
  Taxa_de_readmissao int nat
| Erro_na_identificacao string
| Aviso_coluna_com_zeros

text \<open>
  Whether control goes on to the next section or the process ends (\<^verbatim>\<open>exit()\<close>).
\<close>

datatype 'a control = Continue 'a | Exit

text \<open>
  Section 4 of the script: the \<^verbatim>\<open>try\<close> block and its handler
  \<^verbatim>\<open>except Exception as e\<close>, which prints the error, assigns
  \<^verbatim>\<open>df['readmitido_30d'] = 0\<close> and prints a warning. The rate that is printed is given
  by the number of readmissions and the number of rows; the comparison of the rate with
  10.75, which only prints a notice more, is left out.
\<close>

definition sum_readmitido :: "frame \<Rightarrow> int" where
  "sum_readmitido df = sum_list (map (\<lambda>r. case readmitido_30d r of Some v \<Rightarrow> v | None \<Rightarrow> 0) df)"

definition readmission_section ::
    "dtypes \<Rightarrow> (nat \<times> string) option \<Rightarrow> frame \<Rightarrow> (frame \<times> printed list) control" where
  "readmission_section dts fault df =
     (case run_statements (try_body dts) fault df of
        Inr df' \<Rightarrow> Continue (df', [Taxa_de_readmissao (sum_readmitido df') (length df')])
      | Inl (e, df') \<Rightarrow>
          Continue (map (\<lambda>r. r\<lparr>readmitido_30d := Some 0\<rparr>) df',
                    [Erro_na_identificacao e, Aviso_coluna_com_zeros]))"

text \<open>
  The \<^verbatim>\<open>try\<close> block of section 4 when nothing but its own statements can raise: the
  table with the readmission flags, or the exception and the table it leaves behind.
\<close>

definition identify_readmissions :: "dtypes \<Rightarrow> frame \<Rightarrow> (string \<times> frame) + frame" where
  "identify_readmissions dts df = run_statements (try_body dts) None df"

text \<open>
  Whether the municipality column can be told apart within the key: it is numeric, or it
  is text without the separator \<^verbatim>\<open>|\<close>.
\<close>

fun is_number :: "cell option \<Rightarrow> bool" where
  "is_number (Some (Num n)) = True"
| "is_number _ = False"

fun is_plain_text :: "cell option \<Rightarrow> bool" where
  "is_plain_text (Some (Txt s)) = (CHR ''|'' \<notin> set s)"
| "is_plain_text _ = False"

definition munic_res_plain :: "'a loaded_row_scheme list \<Rightarrow> bool" where
  "munic_res_plain df \<longleftrightarrow>
     list_all (\<lambda>r. is_number (munic_res r)) df \<or> list_all (\<lambda>r. is_plain_text (munic_res r)) df"

section \<open>The run of the script and its file operations\<close>

text \<open>
  The script touches the file system through \<^verbatim>\<open>os.makedirs\<close>, \<^verbatim>\<open>pd.read_csv\<close>,
  \<^verbatim>\<open>DataFrame.to_csv\<close> and \<^verbatim>\<open>plt.savefig\<close>. A run is modelled by the list of these
  operations, in the order in which they start.
\<close>

datatype fs_event = Makedirs string | Read_file string | Write_file string

definition output_dir :: string where
  "output_dir = ''ResultadosAnalise_ArtigoRESS''"

definition input_csv :: string where
  "input_csv = ''SIH_ArtriteSeptica_BrasilUFporUF_filtered61225.csv''"

text \<open>\<^verbatim>\<open>os.path.join(a, b)\<close> on a POSIX system.\<close>

definition os_path_join :: "string \<Rightarrow> string \<Rightarrow> string" where
  "os_path_join a b =
     (if b \<noteq> [] \<and> hd b = CHR ''/'' then b
      else if a = [] \<or> last a = CHR ''/'' then a @ b
      else a @ ''/'' @ b)"

text \<open>The nine output files, each \<^verbatim>\<open>os.path.join(output_dir, name)\<close>.\<close>

definition tabela1_csv :: string where
  "tabela1_csv = os_path_join output_dir ''Tabela1_Descritiva_Geral.csv''"

definition contagem_csv :: string where
  "contagem_csv = os_path_join output_dir ''Contagem_Procedimentos_Categoria.csv''"

definition figura1_png :: string where
  "figura1_png = os_path_join output_dir ''Figura1_Mortalidade_FaixaEtaria.png''"

definition figura1_tiff :: string where
  "figura1_tiff = os_path_join output_dir ''Figura1_Mortalidade_FaixaEtaria.tiff''"

definition figura2_png :: string where
  "figura2_png = os_path_join output_dir ''Figura2_Readmissao_Procedimento.png''"

definition figura2_tiff :: string where
  "figura2_tiff = os_path_join output_dir ''Figura2_Readmissao_Procedimento.tiff''"

definition tabela2_csv :: string where
  "tabela2_csv = os_path_join output_dir ''Tabela2_Regressao_Logistica_Readmissao.csv''"

definition figura3_png :: string where
  "figura3_png = os_path_join output_dir ''Figura3_Forest_Plot_Readmissao.png''"

definition figura3_tiff :: string where
  "figura3_tiff = os_path_join output_dir ''Figura3_Forest_Plot_Readmissao.tiff''"

text \<open>
  What \<^verbatim>\<open>pd.read_csv\<close> does in section 2: it succeeds with UTF-8; or it raises
  \<^verbatim>\<open>UnicodeDecodeError\<close> and the second call, with latin-1, succeeds or raises; or the
  first call raises \<^verbatim>\<open>FileNotFoundError\<close> or another exception.
\<close>

datatype load_outcome =
  Loaded_utf8 | Loaded_latin1 | Latin1_failed | File_not_found | Load_error

text \<open>
  What a run depends on and the script does not decide: whether the output directory
  exists, the outcome of loading, the names of the columns of the table (after the
  renaming of section 2) and its rows (after the type conversions), and the exceptions.
  For the \<^verbatim>\<open>try\<close> blocks of sections 3, 6 and 9, which write files, \<open>Some n\<close> says that
  the block raises after \<open>n\<close> of its writes have started, \<open>None\<close> that it does not raise.
  (The block of section 8 raises by itself before its only write, see below.)
  \<open>crash_after = Some n\<close> says that the process ends, by an exception that no handler
  catches or from outside, after \<open>n\<close> file operations.
\<close>

record world =
  dir_exists :: bool
  load :: load_outcome
  columns :: "string list"
  rows :: "loaded_row list"
  descritiva_raises :: "nat option"
  readmissao_raises :: "(nat \<times> string) option"
  figuras_raises :: "nat option"
  transformacao_raises :: bool
  forest_raises :: "nat option"
  crash_after :: "nat option"

definition cols_to_check_na :: "string list" where
  "cols_to_check_na =
     [''idade'', ''dias_perm'', ''sexo'', ''morte'', ''nasc'', ''dt_inter'', ''dt_saida'',
      ''cep_str'', ''munic_res'', ''proc_nome'']"

text \<open>The writes of a \<^verbatim>\<open>try\<close> block whose statements write the files \<open>ps\<close> in this order.\<close>

definition try_writes :: "nat option \<Rightarrow> string list \<Rightarrow> fs_event list" where
  "try_writes raises ps =
     map Write_file (case raises of None \<Rightarrow> ps | Some n \<Rightarrow> take n ps)"

text \<open>Section 1: \<^verbatim>\<open>if not os.path.exists(output_dir): os.makedirs(output_dir)\<close>.\<close>

definition section1 :: "world \<Rightarrow> fs_event list" where
  "section1 w = (if dir_exists w then [] else [Makedirs output_dir])"

text \<open>
  Section 2, loading: the reads of the input file, and whether the table is loaded; the
  script ends (\<^verbatim>\<open>exit()\<close>) when it is not.
\<close>

definition section2_load :: "world \<Rightarrow> fs_event list \<times> bool" where
  "section2_load w =
     (case load w of
        Loaded_utf8 \<Rightarrow> ([Read_file input_csv], True)
      | Loaded_latin1 \<Rightarrow> ([Read_file input_csv, Read_file input_csv], True)
      | Latin1_failed \<Rightarrow> ([Read_file input_csv, Read_file input_csv], False)
      | File_not_found \<Rightarrow> ([Read_file input_csv], False)
      | Load_error \<Rightarrow> ([Read_file input_csv], False))"

text \<open>
  Section 2, the two checks that end the script: the column \<open>cep\<close> is missing, or one of
  the essential columns is (\<open>cep_str\<close> has just been added).
\<close>

definition missing_cols :: "world \<Rightarrow> string list" where
  "missing_cols w = filter (\<lambda>col. col \<notin> set (columns w @ [''cep_str''])) cols_to_check_na"

text \<open>
  The statements of the \<^verbatim>\<open>try\<close> block of section 8, by what they do to the run: compute,
  raise, or write a file. The second statement,
  \<^verbatim>\<open>df_analysis['PROC_CATEGORIA'].cat.relevel('Conservador')\<close>, calls a method that the
  categorical accessor of pandas does not have, and raises \<^verbatim>\<open>AttributeError\<close>. The
  statements after it are the formula, the fit, the names, the summary, the six that build
  the odds-ratio table, two prints, the \<^verbatim>\<open>to_csv\<close> of the table and a print.
\<close>

datatype stmt = Computes | Raises string | Writes string

definition regressao_try :: "stmt list" where
  "regressao_try =
     [Computes, Raises ''AttributeError'',
      Computes, Computes, Computes, Computes,
      Computes, Computes, Computes, Computes, Computes, Computes,
      Computes, Computes, Writes tabela2_csv, Computes]"

text \<open>
  The writes of a block of statements up to the first that raises, and the exception.
\<close>

fun exec_try :: "stmt list \<Rightarrow> fs_event list \<times> string option" where
  "exec_try [] = ([], None)"
| "exec_try (Computes # ss) = exec_try ss"
| "exec_try (Raises e # ss) = ([], Some e)"
| "exec_try (Writes p # ss) = (case exec_try ss of (es, raised) \<Rightarrow> (Write_file p # es, raised))"

text \<open>
  Sections 8 and 9: the handler of section 8 sets \<^verbatim>\<open>odds_ratios_df = None\<close>, and section 9
  draws and saves the forest plot when it is not \<^verbatim>\<open>None\<close>.
\<close>

definition sections_8_9 :: "world \<Rightarrow> fs_event list" where
  "sections_8_9 w =
     (case exec_try regressao_try of
        (es, raised) \<Rightarrow>
          es @ (if raised = None
                then try_writes (forest_raises w) [figura3_png, figura3_tiff]
                else []))"

text \<open>
  Sections 3 to 9 on the loaded table. Section 4 hands its table on; the table
  \<open>df_analysis\<close> of section 5 is a copy of it with one more column, and the second figure
  is saved when the mean readmission by category is not empty, that is when the table has
  rows. Section 5 ends the script when the column \<open>proc_nome\<close> is missing, section 7 when
  the transformation raises.
\<close>

definition sections_3_9 :: "world \<Rightarrow> fs_event list" where
  "sections_3_9 w =
     try_writes (descritiva_raises w) [tabela1_csv]
     @ (case readmission_section (dtypes_of (rows w)) (readmissao_raises w)
               (new_frame (cleaning (rows w))) of
          Exit \<Rightarrow> []
        | Continue (df, printed) \<Rightarrow>
            if ''proc_nome'' \<notin> set (columns w) then []
            else
              [Write_file contagem_csv]
              @ try_writes (figuras_raises w)
                  ([figura1_png, figura1_tiff]
                   @ (if df \<noteq> [] then [figura2_png, figura2_tiff] else []))
              @ (if transformacao_raises w then [] else sections_8_9 w))"

text \<open>The file operations of a run that nothing cuts short.\<close>

definition run :: "world \<Rightarrow> fs_event list" where
  "run w =
     section1 w @ fst (section2_load w)
     @ (if \<not> snd (section2_load w) then []
        else if ''cep'' \<notin> set (columns w) then []
        else if missing_cols w \<noteq> [] then []
        else sections_3_9 w)"

text \<open>The file operations of a run.\<close>

definition script_events :: "world \<Rightarrow> fs_event list" where
  "script_events w = (case crash_after w of None \<Rightarrow> run w | Some n \<Rightarrow> take n (run w))"

text \<open>The paths a run writes, in order, and the operations the frame of the script allows.\<close>

fun written :: "fs_event list \<Rightarrow> string list" where
  "written [] = []"
| "written (Write_file p # es) = p # written es"
| "written (e # es) = written es"

fun in_frame :: "fs_event \<Rightarrow> bool" where
  "in_frame (Makedirs p) = (p = output_dir)"
| "in_frame (Read_file p) = (p = input_csv)"
| "in_frame (Write_file p) =
     (\<exists>name. p = output_dir @ ''/'' @ name \<and> name \<noteq> [] \<and> CHR ''/'' \<notin> set name)"

section \<open>An example table\<close>

text \<open>
  Four admissions: three of one patient of Sao Paulo (municipality 355030), one of
  them a minor, and one of a patient of Porto Alegre (431490).
\<close>

definition example_row :: "int \<Rightarrow> int \<Rightarrow> int \<Rightarrow> int \<Rightarrow> loaded_row" where
  "example_row m i a b =
     \<lparr>idade = Some i, dias_perm = Some 3, sexo = Some 1, morte = Some 0,
      nasc = Some 0, dt_inter = Some a, dt_saida = Some b, cep_str = Some ''01310'',
      munic_res = Some (Num m), proc_nome = Some (Txt ''ARTROTOMIA'')\<rparr>"

definition example_table :: "loaded_row list" where
  "example_table =
     [example_row 355030 40 120 125, example_row 355030 17 90 95,
      example_row 431490 40 105 106, example_row 355030 40 100 110]"

text \<open>
  The example table with one admission more, whose \<open>sexo\<close> is not recorded: the column is
  then of type \<^verbatim>\<open>float64\<close>, also after the cleaning has removed this row.
\<close>

definition float_table :: "loaded_row list" where
  "float_table = example_table @ [(example_row 355030 40 130 135)\<lparr>sexo := None\<rparr>]"

text \<open>
  Four admissions of two patients. The first has an admission dated 1696 (a year mistyped,
  for instance) and one of 2024, more than 292 years apart; the second was admitted again
  five days after a discharge.
\<close>

definition overflow_table :: "loaded_row list" where
  "overflow_table =
     [example_row 355030 40 (- 100000) (- 99990), example_row 355030 40 20000 20010,
      example_row 431490 40 100 105, example_row 431490 40 110 112]"

text \<open>
  Section 4 on this table, and the table and the messages that a section hands on.
\<close>

definition overflow_section :: "(frame \<times> printed list) control" where
  "overflow_section =
     readmission_section (dtypes_of overflow_table) None (new_frame (cleaning overflow_table))"

definition table_of :: "(frame \<times> printed list) control \<Rightarrow> frame" where
  "table_of c = (case c of Continue (df, msgs) \<Rightarrow> df | Exit \<Rightarrow> [])"

definition printed_of :: "(frame \<times> printed list) control \<Rightarrow> printed list" where
  "printed_of c = (case c of Continue (df, msgs) \<Rightarrow> msgs | Exit \<Rightarrow> [])"

text \<open>
  A run on the example table: the output directory does not exist yet, and the block of
  the figures raises after the two files of the first figure.
\<close>

definition example_world :: world where
  "example_world =
     \<lparr>dir_exists = False, load = Loaded_utf8,
      columns = [''munic_res'', ''nasc'', ''sexo'', ''cep'', ''dt_inter'', ''dt_saida'',
                 ''dias_perm'', ''idade'', ''morte'', ''proc_rea'', ''proc_nome''],
      rows = example_table,
      descritiva_raises = None, readmissao_raises = None, figuras_raises = Some 2,
      transformacao_raises = False, forest_raises = None,
      crash_after = None\<rparr>"

section \<open>Facts about strings\<close>

lemma startswith_iff: "startswith s kw \<longleftrightarrow> (\<exists>ss. s = kw @ ss)"
  by (induction s kw rule: startswith.induct) auto

lemma contains_iff: "contains kw s \<longleftrightarrow> (\<exists>ps ss. s = ps @ kw @ ss)"
proof (induction s)
  case Nil
  then show ?case by auto
next
  case (Cons c cs)
  show ?case
  proof
    assume "contains kw (c # cs)"
    then consider "startswith (c # cs) kw" | "contains kw cs" by auto
    then show "\<exists>ps ss. c # cs = ps @ kw @ ss"
    proof cases
      case 1
      then obtain ss where "c # cs = kw @ ss" by (auto simp: startswith_iff)
      then have "c # cs = [] @ kw @ ss" by simp
      then show ?thesis by blast
    next
      case 2
      then obtain ps ss where "cs = ps @ kw @ ss" using Cons.IH by blast
      then have "c # cs = (c # ps) @ kw @ ss" by simp
      then show ?thesis by blast
    qed
  next
    assume "\<exists>ps ss. c # cs = ps @ kw @ ss"
    then obtain ps ss where eq: "c # cs = ps @ kw @ ss" by blast
    show "contains kw (c # cs)"
    proof (cases ps)
      case Nil
      with eq have "startswith (c # cs) kw" by (auto simp: startswith_iff)
      then show ?thesis by simp
    next
      case (Cons p ps')
      with eq have "cs = ps' @ kw @ ss" by simp
      then have "contains kw cs" using Cons.IH by blast
      then show ?thesis by simp
    qed
  qed
qed

lemma contains_lower:
  assumes "contains kw s" and "lower kw = kw"
  shows "contains kw (lower s)"
proof -
  from assms(1) obtain ps ss where "s = ps @ kw @ ss" by (auto simp: contains_iff)
  then have "lower s = lower ps @ lower kw @ lower ss" by (simp add: lower_def)
  with assms(2) show ?thesis by (auto simp: contains_iff)
qed

lemma labels_distinct:
  "Procedimentos_Especificos \<noteq> Cirurgia_Grande"
  "Procedimentos_Especificos \<noteq> Cirurgia_Media_Pequena"
  "Procedimentos_Especificos \<noteq> Outros_procedimentos"
  "Procedimentos_Especificos \<noteq> Conservador"
  by (simp_all add: Procedimentos_Especificos_def Cirurgia_Grande_def
      Cirurgia_Media_Pequena_def Outros_procedimentos_def Conservador_def)

section \<open>Theorem on the cleaning filter\<close>

lemma ge_elem_iff: "ge_elem x y \<longleftrightarrow> (\<exists>a b. x = Some a \<and> y = Some b \<and> b \<le> a)"
  by (cases x; cases y) auto

text \<open>
  C3. The cleaning step keeps, in their order and unchanged, exactly the rows that have a
  value in each of the ten essential columns and satisfy \<open>idade \<ge> 18\<close>, \<open>dias_perm \<ge> 1\<close>
  and \<open>dt_saida \<ge> dt_inter\<close>: the cleaned table is the loaded table filtered by this
  condition.
\<close>

theorem cleaning_filter:
  "cleaning df =
     filter (\<lambda>r. \<exists>i d s m n a b c mu p.
                idade r = Some i \<and> dias_perm r = Some d \<and> sexo r = Some s \<and> morte r = Some m
                \<and> nasc r = Some n \<and> dt_inter r = Some a \<and> dt_saida r = Some b
                \<and> cep_str r = Some c \<and> munic_res r = Some mu \<and> proc_nome r = Some p
                \<and> 18 \<le> i \<and> 1 \<le> d \<and> a \<le> b) df"
  unfolding cleaning_def Let_def filter_filter
  by (rule filter_cong) (auto simp: notna_subset_def ge_elem_iff)

section \<open>Facts about dates\<close>

lemma civil_from_days_parts:
  fixes days :: int
  defines "z \<equiv> days + 719468"
  defines "era \<equiv> z div 146097"
  defines "doe \<equiv> z mod 146097"
  defines "c \<equiv> (if doe div 36524 > 3 then 3 else doe div 36524)"
  defines "doc \<equiv> doe - 36524 * c"
  defines "q \<equiv> doc div 1461"
  defines "doq \<equiv> doc - 1461 * q"
  defines "yoq \<equiv> (if doq div 365 > 3 then 3 else doq div 365)"
  defines "doy \<equiv> doq - 365 * yoq"
  defines "mp \<equiv> (5 * doy + 2) div 153"
  shows "0 \<le> c \<and> c \<le> 3 \<and> 0 \<le> q \<and> q \<le> 24 \<and> 0 \<le> yoq \<and> yoq \<le> 3
         \<and> 0 \<le> doy \<and> doy \<le> 365 \<and> 0 \<le> mp \<and> mp \<le> 11
         \<and> z = era * 146097 + 36524 * c + 1461 * q + 365 * yoq + doy
         \<and> 1 \<le> doy - (153 * mp + 2) div 5 + 1 \<and> doy - (153 * mp + 2) div 5 + 1 \<le> 31"
proof -
  have doe: "0 \<le> doe" "doe < 146097" by (simp_all add: doe_def)
  have c: "0 \<le> c" "c \<le> 3" using doe by (auto simp: c_def)
  have doc: "0 \<le> doc" "doc \<le> 36524" using doe unfolding doc_def c_def by auto
  have q: "0 \<le> q" "q \<le> 24" using doc unfolding q_def by auto
  have doq: "0 \<le> doq" "doq \<le> 1460" using doc unfolding doq_def q_def by auto
  have yoq: "0 \<le> yoq" "yoq \<le> 3" using doq by (auto simp: yoq_def)
  have doy: "0 \<le> doy" "doy \<le> 365" using doq unfolding doy_def yoq_def by auto
  have mp: "0 \<le> mp" "mp \<le> 11" using doy unfolding mp_def by auto
  have z: "z = era * 146097 + doe" by (simp add: era_def doe_def)
  have sum: "z = era * 146097 + 36524 * c + 1461 * q + 365 * yoq + doy"
    unfolding z doy_def doq_def doc_def by simp
  have d: "1 \<le> doy - (153 * mp + 2) div 5 + 1 \<and> doy - (153 * mp + 2) div 5 + 1 \<le> 31"
    using doy unfolding mp_def by auto
  from c q yoq doy mp sum d show ?thesis by simp
qed


lemma year_of_era_parts:
  fixes c q yoq :: int
  assumes "0 \<le> c" "c \<le> 3" "0 \<le> q" "q \<le> 24" "0 \<le> yoq" "yoq \<le> 3"
  shows "(100 * c + 4 * q + yoq) div 4 = 25 * c + q"
    and "(100 * c + 4 * q + yoq) div 100 = c"
    and "0 \<le> 100 * c + 4 * q + yoq" and "100 * c + 4 * q + yoq < 400"
  using assms by auto

lemma month_parts:
  fixes doy mp :: int
  assumes "0 \<le> doy" "doy \<le> 365" "mp = (5 * doy + 2) div 153"
  shows "(153 * mp + 2) div 5 + (doy - (153 * mp + 2) div 5 + 1) - 1 = doy"
  by simp

lemma days_from_civil_inverse: "days_from_civil (civil_from_days days) = days"
proof -
  define z where "z = days + 719468"
  define era where "era = z div 146097"
  define doe where "doe = z mod 146097"
  define c where "c = (if doe div 36524 > 3 then 3 else doe div 36524)"
  define doc where "doc = doe - 36524 * c"
  define q where "q = doc div 1461"
  define doq where "doq = doc - 1461 * q"
  define yoq where "yoq = (if doq div 365 > 3 then 3 else doq div 365)"
  define doy where "doy = doq - 365 * yoq"
  define mp where "mp = (5 * doy + 2) div 153"
  define yoe where "yoe = 100 * c + 4 * q + yoq"
  define d where "d = doy - (153 * mp + 2) div 5 + 1"
  define m where "m = (if mp < 10 then mp + 3 else mp - 9)"
  define y where "y = yoe + era * 400 + (if m \<le> 2 then 1 else 0)"
  have cfd: "civil_from_days days = (y, m, d)"
    by (simp only: civil_from_days_def Let_def z_def era_def doe_def c_def doc_def q_def doq_def
        yoq_def doy_def mp_def yoe_def d_def m_def y_def)
  from civil_from_days_parts [of days]
  have parts: "0 \<le> c \<and> c \<le> 3 \<and> 0 \<le> q \<and> q \<le> 24 \<and> 0 \<le> yoq \<and> yoq \<le> 3
         \<and> 0 \<le> doy \<and> doy \<le> 365 \<and> 0 \<le> mp \<and> mp \<le> 11
         \<and> z = era * 146097 + 36524 * c + 1461 * q + 365 * yoq + doy"
    by (simp only: z_def era_def doe_def c_def doc_def q_def doq_def yoq_def doy_def mp_def)
  then have yoe: "yoe div 4 = 25 * c + q" "yoe div 100 = c" "0 \<le> yoe" "yoe < 400"
    unfolding yoe_def by (simp_all add: year_of_era_parts)
  have e1: "(if m \<le> 2 then y - 1 else y) = era * 400 + yoe"
    by (cases "m \<le> 2") (simp_all add: y_def)
  have e2: "(era * 400 + yoe) div 400 = era"
    using yoe(3,4) by (simp add: div_pos_pos_trivial)
  have e3: "(era * 400 + yoe) mod 400 = yoe"
    using yoe(3,4) by (simp add: mod_pos_pos_trivial)
  have e4: "(if m \<le> 2 then m + 9 else m - 3) = mp"
    using parts by (cases "mp < 10") (simp_all add: m_def)
  have e5: "(153 * mp + 2) div 5 + d - 1 = doy"
    by (simp add: d_def)
  have e6: "365 * yoe + yoe div 4 - yoe div 100 + doy
      = 36524 * c + 1461 * q + 365 * yoq + doy"
    unfolding yoe(1,2) by (simp add: yoe_def)
  have "days_from_civil (y, m, d)
      = era * 146097 + (365 * yoe + yoe div 4 - yoe div 100 + doy) - 719468"
    by (simp only: days_from_civil_def Let_def prod.case e1 e2 e3 e4 e5)
  also have "\<dots> = era * 146097 + (36524 * c + 1461 * q + 365 * yoq + doy) - 719468"
    by (simp only: e6)
  also have "\<dots> = days" using parts by (simp add: z_def)
  finally show ?thesis by (simp only: cfd)
qed

lemma civil_from_days_range:
  "civil_from_days days = (y, m, d) \<Longrightarrow> 1 \<le> m \<and> m \<le> 12 \<and> 1 \<le> d \<and> d \<le> 31"
proof -
  assume a: "civil_from_days days = (y, m, d)"
  define z where "z = days + 719468"
  define doe where "doe = z mod 146097"
  define c where "c = (if doe div 36524 > 3 then 3 else doe div 36524)"
  define doc where "doc = doe - 36524 * c"
  define q where "q = doc div 1461"
  define doq where "doq = doc - 1461 * q"
  define yoq where "yoq = (if doq div 365 > 3 then 3 else doq div 365)"
  define doy where "doy = doq - 365 * yoq"
  define mp where "mp = (5 * doy + 2) div 153"
  from civil_from_days_parts [of days]
  have parts: "0 \<le> mp \<and> mp \<le> 11
         \<and> 1 \<le> doy - (153 * mp + 2) div 5 + 1 \<and> doy - (153 * mp + 2) div 5 + 1 \<le> 31"
    by (simp only: z_def doe_def c_def doc_def q_def doq_def yoq_def doy_def mp_def)
  from a have "m = (if mp < 10 then mp + 3 else mp - 9)" "d = doy - (153 * mp + 2) div 5 + 1"
    by (simp_all only: civil_from_days_def Let_def z_def doe_def c_def doc_def q_def doq_def
        yoq_def doy_def mp_def prod.inject)
  with parts show ?thesis by auto
qed

lemma civil_from_days_inj: "civil_from_days a = civil_from_days b \<Longrightarrow> a = b"
  by (metis days_from_civil_inverse)

section \<open>Facts about printed numbers and dates\<close>

lemma of_char_digit_char: "d < 10 \<Longrightarrow> of_char (digit_char d) = 48 + d"
  by (simp add: digit_char_def)

lemma digits_value_append:
  "digits_value (s @ [c]) = 10 * digits_value s + (of_char c - 48)"
  by (simp add: digits_value_def)

lemma digits_value_str_nat: "digits_value (str_nat n) = n"
proof (induction n rule: str_nat.induct)
  case (1 n)
  show ?case
  proof (cases "n < 10")
    case True
    then have "str_nat n = [digit_char n]" by (simp add: str_nat.simps)
    with True show ?thesis by (simp add: digits_value_def of_char_digit_char)
  next
    case False
    then have "str_nat n = str_nat (n div 10) @ [digit_char (n mod 10)]"
      by (simp add: str_nat.simps [of n])
    with False 1 show ?thesis
      by (simp add: digits_value_append of_char_digit_char)
  qed
qed

lemma str_nat_inj: "str_nat a = str_nat b \<Longrightarrow> a = b"
  by (metis digits_value_str_nat)

lemma str_nat_digits: "c \<in> set (str_nat n) \<Longrightarrow> 48 \<le> (of_char c :: nat) \<and> (of_char c :: nat) \<le> 57"
proof (induction n rule: str_nat.induct)
  case (1 n)
  show ?case
  proof (cases "n < 10")
    case True
    then have "str_nat n = [digit_char n]" by (simp add: str_nat.simps)
    with True 1(2) show ?thesis by (auto simp: of_char_digit_char)
  next
    case False
    then have "str_nat n = str_nat (n div 10) @ [digit_char (n mod 10)]"
      by (simp add: str_nat.simps [of n])
    with False 1 show ?thesis by (auto simp: of_char_digit_char)
  qed
qed

lemma str_nat_not_Nil: "str_nat n \<noteq> []"
  by (simp add: str_nat.simps [of n])

lemma str_nat_no_minus: "CHR ''-'' \<notin> set (str_nat n)"
  using str_nat_digits [of "CHR ''-''" n] by auto

lemma str_nat_no_bar: "CHR ''|'' \<notin> set (str_nat n)"
  using str_nat_digits [of "CHR ''|''" n] by auto

lemma str_int_inj: "str_int a = str_int b \<Longrightarrow> a = b"
proof -
  assume eq: "str_int a = str_int b"
  have neg_pos: False if "x < 0" "\<not> y < 0" "str_int x = str_int y" for x y
  proof -
    from that have "CHR ''-'' # str_nat (nat (- x)) = str_nat (nat y)" by (simp add: str_int_def)
    then have "CHR ''-'' \<in> set (str_nat (nat y))" by (metis list.set_intros(1))
    with str_nat_no_minus show False by blast
  qed
  show ?thesis
  proof (cases "a < 0"; cases "b < 0")
    assume "a < 0" "b < 0"
    with eq have "nat (- a) = nat (- b)" by (auto simp: str_int_def dest: str_nat_inj)
    with \<open>a < 0\<close> \<open>b < 0\<close> show ?thesis by simp
  next
    assume "a < 0" "\<not> b < 0"
    with eq neg_pos show ?thesis by blast
  next
    assume "\<not> a < 0" "b < 0"
    with eq neg_pos [of b a] show ?thesis by simp
  next
    assume "\<not> a < 0" "\<not> b < 0"
    with eq have "nat a = nat b" by (auto simp: str_int_def dest: str_nat_inj)
    with \<open>\<not> a < 0\<close> \<open>\<not> b < 0\<close> show ?thesis by simp
  qed
qed

lemma str_int_no_bar: "CHR ''|'' \<notin> set (str_int i)"
  using str_nat_no_bar by (simp add: str_int_def)

lemma str_number_inj: "str_number t a = str_number t b \<Longrightarrow> a = b"
  by (cases t) (auto simp: str_number_def dest: str_int_inj)

lemma str_number_no_bar: "CHR ''|'' \<notin> set (str_number t i)"
  using str_int_no_bar by (cases t) (simp_all add: str_number_def)

lemma length_two_digits: "0 \<le> n \<Longrightarrow> n \<le> 99 \<Longrightarrow> length (two_digits n) = 2"
proof -
  assume n: "0 \<le> n" "n \<le> 99"
  show ?thesis
  proof (cases "n < 10")
    case True
    with n have "str_nat (nat n) = [digit_char (nat n)]" by (simp add: str_nat.simps)
    with True n show ?thesis by (simp add: two_digits_def str_int_def)
  next
    case False
    with n have "\<not> nat n < 10" by simp
    then have "str_nat (nat n) = str_nat (nat n div 10) @ [digit_char (nat n mod 10)]"
      by (simp add: str_nat.simps [of "nat n"])
    moreover from n have "nat n div 10 < 10" by simp
    then have "str_nat (nat n div 10) = [digit_char (nat n div 10)]" by (simp add: str_nat.simps)
    ultimately show ?thesis using False n by (simp add: two_digits_def str_int_def)
  qed
qed

lemma two_digits_inj:
  assumes "0 \<le> a" "0 \<le> b" "two_digits a = two_digits b"
  shows "a = b"
proof -
  have v: "digits_value (two_digits n) = nat n" if "0 \<le> n" for n
  proof (cases "n < 10")
    case True
    have "digits_value (CHR ''0'' # s) = digits_value s" for s
      by (simp add: digits_value_def)
    with True that show ?thesis by (simp add: two_digits_def str_int_def digits_value_str_nat)
  next
    case False
    with that show ?thesis by (simp add: two_digits_def str_int_def digits_value_str_nat)
  qed
  from assms(3) have "digits_value (two_digits a) = digits_value (two_digits b)" by simp
  with assms(1,2) show ?thesis by (simp add: v)
qed

lemma two_digits_no_bar: "CHR ''|'' \<notin> set (two_digits n)"
  using str_int_no_bar by (simp add: two_digits_def)

lemma strftime_ymd_no_bar: "CHR ''|'' \<notin> set (strftime_ymd days)"
  using str_int_no_bar two_digits_no_bar
  by (cases "civil_from_days days") (simp add: strftime_ymd_def)

lemma strftime_ymd_inj: "strftime_ymd a = strftime_ymd b \<Longrightarrow> a = b"
proof -
  assume eq: "strftime_ymd a = strftime_ymd b"
  obtain y m d where ca: "civil_from_days a = (y, m, d)" by (cases "civil_from_days a")
  obtain y' m' d' where cb: "civil_from_days b = (y', m', d')" by (cases "civil_from_days b")
  from civil_from_days_range [OF ca] have ra: "0 \<le> m" "m \<le> 99" "0 \<le> d" "d \<le> 99" by auto
  from civil_from_days_range [OF cb] have rb: "0 \<le> m'" "m' \<le> 99" "0 \<le> d'" "d' \<le> 99" by auto
  from eq ca cb have e: "str_int y @ (''-'' @ two_digits m @ ''-'' @ two_digits d)
      = str_int y' @ (''-'' @ two_digits m' @ ''-'' @ two_digits d')"
    by (simp add: strftime_ymd_def)
  have "length (''-'' @ two_digits m @ ''-'' @ two_digits d)
      = length (''-'' @ two_digits m' @ ''-'' @ two_digits d')"
    using ra rb by (simp add: length_two_digits)
  with e have 12: "str_int y = str_int y'
      \<and> ''-'' @ two_digits m @ ''-'' @ two_digits d = ''-'' @ two_digits m' @ ''-'' @ two_digits d'"
    by (metis append_eq_append_conv)
  then have 1: "str_int y = str_int y'" by (rule conjunct1)
  from 12 have 2: "''-'' @ two_digits m @ ''-'' @ two_digits d
      = ''-'' @ two_digits m' @ ''-'' @ two_digits d'"
    by (rule conjunct2)
  from 2 have "two_digits m @ (''-'' @ two_digits d) = two_digits m' @ (''-'' @ two_digits d')"
    by simp
  moreover have "length (two_digits m) = length (two_digits m')"
    using ra rb by (simp add: length_two_digits)
  ultimately have 3: "two_digits m = two_digits m'" and 4: "two_digits d = two_digits d'"
    by simp_all
  from 1 have "y = y'" by (rule str_int_inj)
  moreover from 3 ra rb have "m = m'" by (intro two_digits_inj)
  moreover from 4 ra rb have "d = d'" by (intro two_digits_inj)
  ultimately have "civil_from_days a = civil_from_days b" using ca cb by simp
  then show ?thesis by (rule civil_from_days_inj)
qed

section \<open>Facts about the identity key\<close>

lemma split_at_bar:
  assumes "a @ ''|'' @ b = a' @ ''|'' @ b'"
    and "CHR ''|'' \<notin> set a" and "CHR ''|'' \<notin> set a'"
  shows "a = a' \<and> b = b'"
proof -
  have "takeWhile (\<lambda>c. c \<noteq> CHR ''|'') (a @ ''|'' @ b) = a"
    using assms(2) by (subst takeWhile_append2) auto
  moreover have "takeWhile (\<lambda>c. c \<noteq> CHR ''|'') (a' @ ''|'' @ b') = a'"
    using assms(3) by (subst takeWhile_append2) auto
  ultimately have "a = a'" using assms(1) by simp
  with assms(1) show ?thesis by simp
qed

lemma astype_str_no_bar:
  assumes "is_number v \<or> is_plain_text v"
  shows "CHR ''|'' \<notin> set (astype_str t v)"
proof (cases v)
  case None
  with assms show ?thesis by simp
next
  case (Some c)
  with assms show ?thesis
    by (cases c) (simp_all add: astype_str_def str_number_no_bar)
qed

lemma astype_str_inj:
  assumes "(is_number v \<and> is_number v') \<or> (is_plain_text v \<and> is_plain_text v')"
    and "astype_str t v = astype_str t v'"
  shows "v = v'"
proof -
  from assms(1) obtain c c' where v: "v = Some c" "v' = Some c'"
    by (cases v; cases v') auto
  from assms show ?thesis unfolding v
    by (cases c; cases c') (auto simp: astype_str_def dest: str_number_inj)
qed

lemma key_eq_iff:
  assumes "(is_number v \<and> is_number v') \<or> (is_plain_text v \<and> is_plain_text v')"
  shows "astype_str t v @ ''|'' @ strftime_ymd n @ ''|'' @ str_number t' s @ ''|'' @ c
       = astype_str t v' @ ''|'' @ strftime_ymd n' @ ''|'' @ str_number t' s' @ ''|'' @ c'
     \<longleftrightarrow> v = v' \<and> n = n' \<and> s = s' \<and> c = c'"
proof
  assume eq: "astype_str t v @ ''|'' @ strftime_ymd n @ ''|'' @ str_number t' s @ ''|'' @ c
       = astype_str t v' @ ''|'' @ strftime_ymd n' @ ''|'' @ str_number t' s' @ ''|'' @ c'"
  from assms have p: "is_number v \<or> is_plain_text v" and p': "is_number v' \<or> is_plain_text v'"
    by auto
  note nb = astype_str_no_bar [OF p, of t] astype_str_no_bar [OF p', of t]
  from split_at_bar [OF eq nb]
  have 1: "astype_str t v = astype_str t v'"
    and r1: "strftime_ymd n @ ''|'' @ str_number t' s @ ''|'' @ c
           = strftime_ymd n' @ ''|'' @ str_number t' s' @ ''|'' @ c'"
    by (rule conjunct1, rule conjunct2)
  from split_at_bar [OF r1 strftime_ymd_no_bar strftime_ymd_no_bar]
  have 2: "strftime_ymd n = strftime_ymd n'"
    and r2: "str_number t' s @ ''|'' @ c = str_number t' s' @ ''|'' @ c'"
    by (rule conjunct1, rule conjunct2)
  from split_at_bar [OF r2 str_number_no_bar str_number_no_bar]
  have 3: "str_number t' s = str_number t' s'" and 4: "c = c'"
    by (rule conjunct1, rule conjunct2)
  from astype_str_inj [OF assms 1] strftime_ymd_inj [OF 2] str_number_inj [OF 3] 4
  show "v = v' \<and> n = n' \<and> s = s' \<and> c = c'"
    by (intro conjI)
next
  assume "v = v' \<and> n = n' \<and> s = s' \<and> c = c'"
  then show "astype_str t v @ ''|'' @ strftime_ymd n @ ''|'' @ str_number t' s @ ''|'' @ c
       = astype_str t v' @ ''|'' @ strftime_ymd n' @ ''|'' @ str_number t' s' @ ''|'' @ c'"
    by (elim conjE) (simp only:)
qed

section \<open>Facts about the readmission step\<close>

lemma truncate_updates [simp]:
  "loaded_row.truncate (r\<lparr>nasc_str := a\<rparr>) = loaded_row.truncate r"
  "loaded_row.truncate (r\<lparr>ident_proxy := b\<rparr>) = loaded_row.truncate r"
  "loaded_row.truncate (r\<lparr>dt_saida_anterior := c\<rparr>) = loaded_row.truncate r"
  "loaded_row.truncate (r\<lparr>intervalo_dias := c\<rparr>) = loaded_row.truncate r"
  "loaded_row.truncate (r\<lparr>readmitido_30d := c\<rparr>) = loaded_row.truncate r"
  by (simp_all add: loaded_row.truncate_def)

lemma truncate_extend [simp]: "loaded_row.truncate (loaded_row.extend r e) = r"
  by (simp add: loaded_row.truncate_def loaded_row.extend_def)

lemma length_groupby_shift [simp]: "length (groupby_shift prev rs) = length rs"
  by (induction rs arbitrary: prev) (auto split: option.splits)

lemma groupby_shift_first:
  "i < length rs \<Longrightarrow> ident_proxy (rs ! i) = Some k \<Longrightarrow>
   (\<forall>j<i. ident_proxy (rs ! j) \<noteq> Some k) \<Longrightarrow>
   groupby_shift prev rs ! i =
     (rs ! i)\<lparr>dt_saida_anterior := (case prev k of None \<Rightarrow> None | Some v \<Rightarrow> v)\<rparr>"
proof (induction rs arbitrary: prev i)
  case Nil
  then show ?case by simp
next
  case (Cons r rs)
  show ?case
  proof (cases i)
    case 0
    with Cons.prems show ?thesis by simp
  next
    case (Suc i')
    from Cons.prems Suc have i': "i' < length rs" and key: "ident_proxy (rs ! i') = Some k"
      by simp_all
    from Cons.prems(3) Suc have r: "ident_proxy r \<noteq> Some k" by auto
    from Cons.prems(3) Suc have others: "\<forall>j<i'. ident_proxy (rs ! j) \<noteq> Some k" by auto
    show ?thesis
    proof (cases "ident_proxy r")
      case None
      then show ?thesis using Suc Cons.IH [OF i' key others, of prev] by simp
    next
      case (Some k')
      with r have neq: "k' \<noteq> k" by simp
      have "groupby_shift (prev(k' \<mapsto> dt_saida r)) rs ! i' =
          (rs ! i')\<lparr>dt_saida_anterior :=
             (case (prev(k' \<mapsto> dt_saida r)) k of None \<Rightarrow> None | Some v \<Rightarrow> v)\<rparr>"
        by (rule Cons.IH [OF i' key others])
      with neq have eq: "groupby_shift (prev(k' \<mapsto> dt_saida r)) rs ! i' =
          (rs ! i')\<lparr>dt_saida_anterior := (case prev k of None \<Rightarrow> None | Some v \<Rightarrow> v)\<rparr>"
        by simp
      show ?thesis using Suc Some by (simp add: eq)
    qed
  qed
qed

lemma groupby_shift_prev:
  "i < length rs \<Longrightarrow> ident_proxy (rs ! i) = Some k \<Longrightarrow> j < i \<Longrightarrow>
   ident_proxy (rs ! j) = Some k \<Longrightarrow>
   (\<forall>m. j < m \<and> m < i \<longrightarrow> ident_proxy (rs ! m) \<noteq> Some k) \<Longrightarrow>
   groupby_shift prev rs ! i = (rs ! i)\<lparr>dt_saida_anterior := dt_saida (rs ! j)\<rparr>"
proof (induction rs arbitrary: prev i j)
  case Nil
  then show ?case by simp
next
  case (Cons r rs)
  from Cons.prems(3) obtain i' where i: "i = Suc i'" by (cases i) auto
  from Cons.prems i have i': "i' < length rs" and key: "ident_proxy (rs ! i') = Some k"
    by simp_all
  show ?case
  proof (cases j)
    case 0
    with Cons.prems have r: "ident_proxy r = Some k" by simp
    have others: "\<forall>m<i'. ident_proxy (rs ! m) \<noteq> Some k"
    proof (intro allI impI)
      fix m assume "m < i'"
      then have "j < Suc m \<and> Suc m < i" using 0 i by simp
      with Cons.prems(5) have "ident_proxy ((r # rs) ! Suc m) \<noteq> Some k" by blast
      then show "ident_proxy (rs ! m) \<noteq> Some k" by simp
    qed
    have eq: "groupby_shift (prev(k \<mapsto> dt_saida r)) rs ! i' =
        (rs ! i')\<lparr>dt_saida_anterior := dt_saida r\<rparr>"
      using groupby_shift_first [OF i' key others, of "prev(k \<mapsto> dt_saida r)"] by simp
    show ?thesis using i r 0 by (simp add: eq)
  next
    case (Suc j')
    from Cons.prems(3) Suc i have j': "j' < i'" by simp
    from Cons.prems(4) Suc have keyj: "ident_proxy (rs ! j') = Some k" by simp
    have between: "\<forall>m. j' < m \<and> m < i' \<longrightarrow> ident_proxy (rs ! m) \<noteq> Some k"
    proof (intro allI impI)
      fix m assume "j' < m \<and> m < i'"
      then have "j < Suc m \<and> Suc m < i" using Suc i by simp
      with Cons.prems(5) have "ident_proxy ((r # rs) ! Suc m) \<noteq> Some k" by blast
      then show "ident_proxy (rs ! m) \<noteq> Some k" by simp
    qed
    have eq: "\<And>p. groupby_shift p rs ! i' = (rs ! i')\<lparr>dt_saida_anterior := dt_saida (rs ! j')\<rparr>"
      by (rule Cons.IH [OF i' key j' keyj between])
    show ?thesis using i Suc by (simp add: eq split: option.splits)
  qed
qed

lemma groupby_shift_nth:
  "i < length rs \<Longrightarrow> \<exists>v. groupby_shift prev rs ! i = (rs ! i)\<lparr>dt_saida_anterior := v\<rparr>"
proof (induction rs arbitrary: prev i)
  case Nil
  then show ?case by simp
next
  case (Cons r rs)
  show ?case
  proof (cases i)
    case 0
    then show ?thesis by (cases "ident_proxy r") auto
  next
    case (Suc i')
    with Cons.prems have "i' < length rs" by simp
    then have "\<And>p. \<exists>v. groupby_shift p rs ! i' = (rs ! i')\<lparr>dt_saida_anterior := v\<rparr>"
      by (rule Cons.IH)
    then show ?thesis using Suc by (cases "ident_proxy r") auto
  qed
qed

lemma mset_groupby_shift:
  "mset (map loaded_row.truncate (groupby_shift prev rs)) = mset (map loaded_row.truncate rs)"
  by (induction rs arbitrary: prev) (auto split: option.splits)

lemma groupby_shift_source:
  "r \<in> set (groupby_shift prev rs) \<Longrightarrow> dt_saida_anterior r = Some p \<Longrightarrow>
   (\<exists>r'\<in>set rs. dt_saida r' = Some p) \<or> (\<exists>k. prev k = Some (Some p))"
proof (induction rs arbitrary: prev)
  case Nil
  then show ?case by simp
next
  case (Cons r0 rs)
  show ?case
  proof (cases "ident_proxy r0")
    case None
    with Cons.prems have "r \<in> set (groupby_shift prev rs)" by auto
    from Cons.IH [OF this Cons.prems(2)] show ?thesis by auto
  next
    case (Some k)
    with Cons.prems(1) consider
        (here) "r = r0\<lparr>dt_saida_anterior := (case prev k of None \<Rightarrow> None | Some v \<Rightarrow> v)\<rparr>"
      | (later) "r \<in> set (groupby_shift (prev(k \<mapsto> dt_saida r0)) rs)"
      by auto
    then show ?thesis
    proof cases
      case here
      with Cons.prems(2) have "prev k = Some (Some p)"
        by (cases "prev k") simp_all
      then show ?thesis by blast
    next
      case later
      from Cons.IH [OF later Cons.prems(2)]
      consider (row) "\<exists>r'\<in>set rs. dt_saida r' = Some p"
        | (map) "\<exists>k'. (prev(k \<mapsto> dt_saida r0)) k' = Some (Some p)"
        by blast
      then show ?thesis
      proof cases
        case row
        then show ?thesis by auto
      next
        case map
        then obtain k' where k': "(prev(k \<mapsto> dt_saida r0)) k' = Some (Some p)" ..
        show ?thesis
        proof (cases "k' = k")
          case True
          with k' have "dt_saida r0 = Some p" by simp
          then show ?thesis by auto
        next
          case False
          with k' have "prev k' = Some (Some p)" by simp
          then show ?thesis by blast
        qed
      qed
    qed
  qed
qed

lemma groupby_shift_row:
  assumes "r \<in> set (groupby_shift prev rs)"
  shows "\<exists>r'\<in>set rs. dt_inter r = dt_inter r'"
proof -
  from assms obtain i where i: "i < length rs" and r: "r = groupby_shift prev rs ! i"
    by (auto simp: in_set_conv_nth)
  from groupby_shift_nth [OF i, of prev] obtain v
    where "groupby_shift prev rs ! i = (rs ! i)\<lparr>dt_saida_anterior := v\<rparr>" ..
  with r have "dt_inter r = dt_inter (rs ! i)" by simp
  with i show ?thesis by auto
qed

lemma timedelta_overflows_iff: "timedelta_overflows days \<longleftrightarrow> 106751 < \<bar>days\<bar>"
  unfolding timedelta_overflows_def by arith

lemma statement_preserves:
  "mset (map loaded_row.truncate (set_nasc_str df)) = mset (map loaded_row.truncate df)"
  "mset (map loaded_row.truncate (set_ident_proxy dts df)) = mset (map loaded_row.truncate df)"
  "mset (map loaded_row.truncate (sort_values df)) = mset (map loaded_row.truncate df)"
  "mset (map loaded_row.truncate (set_dt_saida_anterior df)) = mset (map loaded_row.truncate df)"
  "mset (map loaded_row.truncate (init_intervalo_dias df)) = mset (map loaded_row.truncate df)"
  "mset (map loaded_row.truncate (assign_intervalo_dias df)) = mset (map loaded_row.truncate df)"
  "mset (map loaded_row.truncate (set_readmitido_30d df)) = mset (map loaded_row.truncate df)"
proof -
  show "mset (map loaded_row.truncate (set_nasc_str df)) = mset (map loaded_row.truncate df)"
    by (simp add: set_nasc_str_def comp_def)
  show "mset (map loaded_row.truncate (set_ident_proxy dts df)) = mset (map loaded_row.truncate df)"
    by (simp add: set_ident_proxy_def comp_def)
  show "mset (map loaded_row.truncate (sort_values df)) = mset (map loaded_row.truncate df)"
    by (simp add: sort_values_def)
  show "mset (map loaded_row.truncate (set_dt_saida_anterior df)) = mset (map loaded_row.truncate df)"
    by (simp only: set_dt_saida_anterior_def mset_groupby_shift)
  show "mset (map loaded_row.truncate (init_intervalo_dias df)) = mset (map loaded_row.truncate df)"
    by (simp add: init_intervalo_dias_def comp_def)
  have "map loaded_row.truncate (assign_intervalo_dias df) = map loaded_row.truncate df"
    by (simp add: assign_intervalo_dias_def)
  then show "mset (map loaded_row.truncate (assign_intervalo_dias df)) = mset (map loaded_row.truncate df)"
    by simp
  show "mset (map loaded_row.truncate (set_readmitido_30d df)) = mset (map loaded_row.truncate df)"
    by (simp add: set_readmitido_30d_def comp_def)
qed

lemma truncate_new_frame: "map loaded_row.truncate (new_frame df) = df"
  by (simp add: new_frame_def comp_def)

lemma keyed_row:
  assumes "r \<in> set (set_ident_proxy dts (set_nasc_str (new_frame (cleaning df))))"
  shows "loaded_row.truncate r \<in> set (cleaning df)
       \<and> (\<exists>n s c mu a b. nasc r = Some n \<and> sexo r = Some s \<and> cep_str r = Some c
           \<and> munic_res r = Some mu \<and> dt_inter r = Some a \<and> dt_saida r = Some b
           \<and> ident_proxy r = Some (astype_str (munic_res_dtype dts) (Some mu) @ ''|''
                @ strftime_ymd n @ ''|'' @ str_number (sexo_dtype dts) s @ ''|'' @ c))"
proof -
  from assms obtain r0 where r0: "r0 \<in> set (cleaning df)"
    and r: "r = (let r1 = (loaded_row.extend r0 (frame_row.fields None None None None None))
                        \<lparr>nasc_str := map_option strftime_ymd (nasc r0)\<rparr>
                 in r1\<lparr>ident_proxy := proxy_of dts r1\<rparr>)"
    by (auto simp: set_ident_proxy_def set_nasc_str_def new_frame_def loaded_row.extend_def Let_def)
  have t: "loaded_row.truncate r = r0"
    by (simp add: r Let_def)
  from r0 have "notna_subset r0" by (simp add: cleaning_def)
  then obtain n s c mu a b where v: "nasc r0 = Some n" "sexo r0 = Some s" "cep_str r0 = Some c"
      "munic_res r0 = Some mu" "dt_inter r0 = Some a" "dt_saida r0 = Some b"
    by (auto simp: notna_subset_def)
  then have "\<exists>n s c mu a b. nasc r = Some n \<and> sexo r = Some s \<and> cep_str r = Some c
           \<and> munic_res r = Some mu \<and> dt_inter r = Some a \<and> dt_saida r = Some b
           \<and> ident_proxy r = Some (astype_str (munic_res_dtype dts) (Some mu) @ ''|''
                @ strftime_ymd n @ ''|'' @ str_number (sexo_dtype dts) s @ ''|'' @ c)"
    by (simp add: r Let_def proxy_of_def astype_str_def loaded_row.extend_def frame_row.fields_def)
  with t r0 show ?thesis by simp
qed

lemma last_before:
  "\<exists>j<i::nat. P j \<Longrightarrow> \<exists>j<i. P j \<and> (\<forall>m. j < m \<and> m < i \<longrightarrow> \<not> P m)"
proof (induction i)
  case 0
  then show ?case by simp
next
  case (Suc i)
  show ?case
  proof (cases "P i")
    case True
    then show ?thesis by (intro exI [of _ i]) auto
  next
    case False
    with Suc.prems have "\<exists>j<i. P j" by (metis less_Suc_eq)
    then obtain j where j: "j < i" "P j" "\<forall>m. j < m \<and> m < i \<longrightarrow> \<not> P m"
      using Suc.IH by blast
    with False have "\<forall>m. j < m \<and> m < Suc i \<longrightarrow> \<not> P m" by (auto simp: less_Suc_eq)
    with j show ?thesis by (intro exI [of _ j]) auto
  qed
qed

lemma finish_nth:
  assumes "i < length g"
  shows "set_readmitido_30d (assign_intervalo_dias (init_intervalo_dias g)) ! i =
     (g ! i)\<lparr>intervalo_dias :=
         (if dt_saida_anterior (g ! i) \<noteq> None
          then days_between (dt_inter (g ! i)) (dt_saida_anterior (g ! i)) else None),
       readmitido_30d := Some (if \<exists>a p. dt_inter (g ! i) = Some a \<and> dt_saida_anterior (g ! i) = Some p
                                     \<and> 0 \<le> a - p \<and> a - p \<le> 30 then 1 else 0)\<rparr>"
proof (cases "dt_saida_anterior (g ! i)")
  case None
  with assms show ?thesis
    by (simp add: set_readmitido_30d_def assign_intervalo_dias_def init_intervalo_dias_def)
next
  case (Some p)
  with assms show ?thesis
    by (cases "dt_inter (g ! i)")
      (simp_all add: set_readmitido_30d_def assign_intervalo_dias_def init_intervalo_dias_def)
qed

lemma identify_cases:
  "identify_readmissions dts df =
     (if list_ex subtraction_overflows (init_intervalo_dias
            (set_dt_saida_anterior (sort_values (set_ident_proxy dts (set_nasc_str df)))))
      then Inl (''OverflowError'', init_intervalo_dias
            (set_dt_saida_anterior (sort_values (set_ident_proxy dts (set_nasc_str df)))))
      else Inr (set_readmitido_30d (assign_intervalo_dias (init_intervalo_dias
            (set_dt_saida_anterior (sort_values (set_ident_proxy dts (set_nasc_str df))))))))"
  by (simp add: identify_readmissions_def try_body_def returns_def fill_intervalo_dias_def)

lemma na_last_le:
  "(na_last (Some kx), na_last (Some ax)) \<le> (na_last (Some ky), na_last (Some ay))
     \<longleftrightarrow> (Some (kx::string), Some (ax::int)) \<le> (Some ky, Some ay)"
  by (simp add: na_last_def less_eq_prod_def less_prod_def)

lemma sorted_keys:
  assumes "sorted (map (\<lambda>r. (na_last (ident_proxy r), na_last (dt_inter r))) s)"
    and "\<forall>r\<in>set s. ident_proxy r \<noteq> None \<and> dt_inter r \<noteq> None"
  shows "sorted (map (\<lambda>r. (ident_proxy r, dt_inter r)) (s :: frame))"
proof -
  from assms(1) have "sorted_wrt (\<lambda>x y. (na_last (ident_proxy x), na_last (dt_inter x))
      \<le> (na_last (ident_proxy y), na_last (dt_inter y))) s"
    by (simp only: sorted_map)
  then have "sorted_wrt (\<lambda>x y. (ident_proxy x, dt_inter x) \<le> (ident_proxy y, dt_inter y)) s"
  proof (rule sorted_wrt_mono_rel [rotated])
    fix x y assume xs: "x \<in> set s" and ys: "y \<in> set s"
      and le: "(na_last (ident_proxy x), na_last (dt_inter x))
          \<le> (na_last (ident_proxy y), na_last (dt_inter y))"
    from assms(2) xs obtain kx ax where x: "ident_proxy x = Some kx" "dt_inter x = Some ax"
      by blast
    from assms(2) ys obtain ky ay where y: "ident_proxy y = Some ky" "dt_inter y = Some ay"
      by blast
    from le show "(ident_proxy x, dt_inter x) \<le> (ident_proxy y, dt_inter y)"
      unfolding x y by (simp only: na_last_le)
  qed
  then show ?thesis by (simp only: sorted_map)
qed

lemma readmission_rows:
  fixes df :: "loaded_row list"
  assumes out_eq': "out = set_readmitido_30d (assign_intervalo_dias (init_intervalo_dias
      (set_dt_saida_anterior (sort_values (set_ident_proxy dts (set_nasc_str
         (new_frame (cleaning df))))))))"
  shows "mset (map loaded_row.truncate out) = mset (cleaning df)
     \<and> sorted (map (\<lambda>r. (ident_proxy r, dt_inter r)) out)
     \<and> (munic_res_plain (cleaning df) \<longrightarrow>
          (\<forall>i<length out. \<forall>j<length out.
             ident_proxy (out ! i) = ident_proxy (out ! j) \<longleftrightarrow>
               munic_res (out ! i) = munic_res (out ! j) \<and> nasc (out ! i) = nasc (out ! j)
               \<and> sexo (out ! i) = sexo (out ! j) \<and> cep_str (out ! i) = cep_str (out ! j)))
     \<and> (\<forall>i<length out. \<exists>k a n s c mu.
           nasc (out ! i) = Some n \<and> sexo (out ! i) = Some s \<and> cep_str (out ! i) = Some c
           \<and> munic_res (out ! i) = Some mu
           \<and> k = astype_str (munic_res_dtype dts) (Some mu) @ ''|'' @ strftime_ymd n @ ''|''
                 @ str_number (sexo_dtype dts) s @ ''|'' @ c
           \<and> ident_proxy (out ! i) = Some k \<and> dt_inter (out ! i) = Some a
           \<and> readmitido_30d (out ! i) =
               Some (if \<exists>j<i. ident_proxy (out ! j) = Some k
                          \<and> (\<forall>m. j < m \<and> m < i \<longrightarrow> ident_proxy (out ! m) \<noteq> Some k)
                          \<and> (\<exists>p. dt_saida (out ! j) = Some p \<and> 0 \<le> a - p \<and> a - p \<le> 30)
                     then 1 else 0))"
proof -
  define c where "c = new_frame (cleaning df)"
  define kd where "kd = set_ident_proxy dts (set_nasc_str c)"
  define s where "s = sort_values kd"
  define g where "g = set_dt_saida_anterior s"
  have out_eq: "out = set_readmitido_30d (assign_intervalo_dias (init_intervalo_dias g))"
    by (simp only: out_eq' g_def s_def kd_def c_def)
  have set_s: "set s = set kd"
    by (simp add: s_def sort_values_def)
  have len_g: "length g = length s"
    by (simp add: g_def set_dt_saida_anterior_def)
  have len_out: "length out = length s"
    by (simp add: out_eq len_g set_readmitido_30d_def assign_intervalo_dias_def init_intervalo_dias_def)
  have row: "loaded_row.truncate r \<in> set (cleaning df)
       \<and> (\<exists>n sx cp mu a b. nasc r = Some n \<and> sexo r = Some sx \<and> cep_str r = Some cp
           \<and> munic_res r = Some mu \<and> dt_inter r = Some a \<and> dt_saida r = Some b
           \<and> ident_proxy r = Some (astype_str (munic_res_dtype dts) (Some mu) @ ''|'' @ strftime_ymd n @ ''|''
                 @ str_number (sexo_dtype dts) sx @ ''|'' @ cp))"
    if "r \<in> set s" for r
    using that keyed_row [of r dts df] by (simp only: set_s kd_def c_def)
  have g_nth: "\<exists>v. g ! i = (s ! i)\<lparr>dt_saida_anterior := v\<rparr>" if "i < length s" for i
    using that by (simp only: g_def set_dt_saida_anterior_def groupby_shift_nth)
  have out_nth: "out ! i = (g ! i)\<lparr>intervalo_dias :=
         (if dt_saida_anterior (g ! i) \<noteq> None
          then days_between (dt_inter (g ! i)) (dt_saida_anterior (g ! i)) else None),
       readmitido_30d := Some (if \<exists>a p. dt_inter (g ! i) = Some a \<and> dt_saida_anterior (g ! i) = Some p
                                     \<and> 0 \<le> a - p \<and> a - p \<le> 30 then 1 else 0)\<rparr>"
    if "i < length s" for i
    using that finish_nth [of i g] by (simp only: out_eq len_g)
  have same: "ident_proxy (out ! i) = ident_proxy (s ! i) \<and> dt_inter (out ! i) = dt_inter (s ! i)
      \<and> dt_saida (out ! i) = dt_saida (s ! i) \<and> nasc (out ! i) = nasc (s ! i)
      \<and> sexo (out ! i) = sexo (s ! i) \<and> cep_str (out ! i) = cep_str (s ! i)
      \<and> munic_res (out ! i) = munic_res (s ! i)" if "i < length s" for i
  proof -
    from g_nth [OF that] obtain v where "g ! i = (s ! i)\<lparr>dt_saida_anterior := v\<rparr>" ..
    then show ?thesis by (simp add: out_nth [OF that])
  qed
  txt \<open>the rows are those of the cleaned table\<close>
  have A: "mset (map loaded_row.truncate out) = mset (cleaning df)"
    by (simp only: out_eq g_def s_def kd_def c_def statement_preserves truncate_new_frame)
  txt \<open>in the order of key and admission date\<close>
  have "sorted (map (\<lambda>r. (na_last (ident_proxy r), na_last (dt_inter r))) s)"
    by (simp only: s_def sort_values_def sorted_sort_key)
  moreover have "\<forall>r\<in>set s. ident_proxy r \<noteq> None \<and> dt_inter r \<noteq> None"
    using row by fastforce
  ultimately have "sorted (map (\<lambda>r. (ident_proxy r, dt_inter r)) s)"
    by (rule sorted_keys)
  moreover have "map (\<lambda>r. (ident_proxy r, dt_inter r)) out = map (\<lambda>r. (ident_proxy r, dt_inter r)) s"
    by (rule nth_equalityI) (simp_all add: len_out same)
  ultimately have B: "sorted (map (\<lambda>r. (ident_proxy r, dt_inter r)) out)"
    by simp
  txt \<open>and the flag of each row\<close>
  have C: "\<exists>k a n sx cp mu.
           nasc (out ! i) = Some n \<and> sexo (out ! i) = Some sx \<and> cep_str (out ! i) = Some cp
           \<and> munic_res (out ! i) = Some mu
           \<and> k = astype_str (munic_res_dtype dts) (Some mu) @ ''|'' @ strftime_ymd n @ ''|''
                 @ str_number (sexo_dtype dts) sx @ ''|'' @ cp
           \<and> ident_proxy (out ! i) = Some k \<and> dt_inter (out ! i) = Some a
           \<and> readmitido_30d (out ! i) =
               Some (if \<exists>j<i. ident_proxy (out ! j) = Some k
                          \<and> (\<forall>m. j < m \<and> m < i \<longrightarrow> ident_proxy (out ! m) \<noteq> Some k)
                          \<and> (\<exists>p. dt_saida (out ! j) = Some p \<and> 0 \<le> a - p \<and> a - p \<le> 30)
                     then 1 else 0)" if i: "i < length out" for i
  proof -
    from i have lt: "i < length s" by (simp only: len_out)
    then have "s ! i \<in> set s" by simp
    from row [OF this] obtain n sx cp mu a b where
      v: "nasc (s ! i) = Some n" "sexo (s ! i) = Some sx" "cep_str (s ! i) = Some cp"
         "munic_res (s ! i) = Some mu" "dt_inter (s ! i) = Some a"
      and key: "ident_proxy (s ! i) =
         Some (astype_str (munic_res_dtype dts) (Some mu) @ ''|'' @ strftime_ymd n @ ''|''
                 @ str_number (sexo_dtype dts) sx @ ''|'' @ cp)"
      by blast
    define k where "k = astype_str (munic_res_dtype dts) (Some mu) @ ''|'' @ strftime_ymd n @ ''|''
                 @ str_number (sexo_dtype dts) sx @ ''|'' @ cp"
    from key have key': "ident_proxy (s ! i) = Some k" by (simp only: k_def)
    have keys: "ident_proxy (out ! j) = ident_proxy (s ! j)" if "j < i" for j
      using that lt same [of j] by simp
    have exits: "dt_saida (out ! j) = dt_saida (s ! j)" if "j < i" for j
      using that lt same [of j] by simp
    have flag: "readmitido_30d (out ! i) =
        Some (if \<exists>j<i. ident_proxy (out ! j) = Some k
                   \<and> (\<forall>m. j < m \<and> m < i \<longrightarrow> ident_proxy (out ! m) \<noteq> Some k)
                   \<and> (\<exists>p. dt_saida (out ! j) = Some p \<and> 0 \<le> a - p \<and> a - p \<le> 30)
              then 1 else 0)"
    proof (cases "\<exists>j<i. ident_proxy (s ! j) = Some k")
      case True
      from last_before [OF True] obtain j where j: "j < i" "ident_proxy (s ! j) = Some k"
        and between: "\<forall>m. j < m \<and> m < i \<longrightarrow> ident_proxy (s ! m) \<noteq> Some k"
        by blast
      from j lt have "s ! j \<in> set s" by simp
      from row [OF this] obtain p where p: "dt_saida (s ! j) = Some p" by blast
      have "g ! i = (s ! i)\<lparr>dt_saida_anterior := dt_saida (s ! j)\<rparr>"
        unfolding g_def set_dt_saida_anterior_def
        by (rule groupby_shift_prev [OF lt key' j(1) j(2) between])
      then have fl: "readmitido_30d (out ! i) = Some (if 0 \<le> a - p \<and> a - p \<le> 30 then 1 else 0)"
        by (simp add: out_nth [OF lt] v p)
      have uniq: "j' = j" if "j' < i" "ident_proxy (out ! j') = Some k"
        "\<forall>m. j' < m \<and> m < i \<longrightarrow> ident_proxy (out ! m) \<noteq> Some k" for j'
      proof (rule ccontr)
        assume "j' \<noteq> j"
        then consider "j' < j" | "j < j'" by linarith
        then show False
        proof cases
          case 1
          with that(3) j(1) have "ident_proxy (out ! j) \<noteq> Some k" by blast
          with j show False by (simp add: keys)
        next
          case 2
          with between that(1) have "ident_proxy (s ! j') \<noteq> Some k" by blast
          with that show False by (simp add: keys)
        qed
      qed
      have "(\<exists>j'<i. ident_proxy (out ! j') = Some k
                   \<and> (\<forall>m. j' < m \<and> m < i \<longrightarrow> ident_proxy (out ! m) \<noteq> Some k)
                   \<and> (\<exists>p'. dt_saida (out ! j') = Some p' \<and> 0 \<le> a - p' \<and> a - p' \<le> 30))
            \<longleftrightarrow> (0 \<le> a - p \<and> a - p \<le> 30)"
      proof
        assume "\<exists>j'<i. ident_proxy (out ! j') = Some k
                   \<and> (\<forall>m. j' < m \<and> m < i \<longrightarrow> ident_proxy (out ! m) \<noteq> Some k)
                   \<and> (\<exists>p'. dt_saida (out ! j') = Some p' \<and> 0 \<le> a - p' \<and> a - p' \<le> 30)"
        then obtain j' p' where j': "j' < i" "ident_proxy (out ! j') = Some k"
          "\<forall>m. j' < m \<and> m < i \<longrightarrow> ident_proxy (out ! m) \<noteq> Some k"
          and p': "dt_saida (out ! j') = Some p'" "0 \<le> a - p'" "a - p' \<le> 30"
          by blast
        from uniq [OF j'] have "j' = j" .
        with p' p j(1) have "p' = p" by (simp add: exits)
        with p' show "0 \<le> a - p \<and> a - p \<le> 30" by simp
      next
        assume r: "0 \<le> a - p \<and> a - p \<le> 30"
        have 1: "ident_proxy (out ! j) = Some k" using j by (simp add: keys)
        have 2: "\<forall>m. j < m \<and> m < i \<longrightarrow> ident_proxy (out ! m) \<noteq> Some k"
          using between by (simp add: keys)
        have 3: "\<exists>p'. dt_saida (out ! j) = Some p' \<and> 0 \<le> a - p' \<and> a - p' \<le> 30"
          using r p j(1) by (simp add: exits)
        from j(1) 1 2 3 show "\<exists>j'<i. ident_proxy (out ! j') = Some k
                   \<and> (\<forall>m. j' < m \<and> m < i \<longrightarrow> ident_proxy (out ! m) \<noteq> Some k)
                   \<and> (\<exists>p'. dt_saida (out ! j') = Some p' \<and> 0 \<le> a - p' \<and> a - p' \<le> 30)"
          by blast
      qed
      with fl show ?thesis by (simp only:)
    next
      case False
      then have none: "\<forall>j<i. ident_proxy (s ! j) \<noteq> Some k" by blast
      have "g ! i = (s ! i)\<lparr>dt_saida_anterior :=
          (case Map.empty k of None \<Rightarrow> None | Some v \<Rightarrow> v)\<rparr>"
        unfolding g_def set_dt_saida_anterior_def
        by (rule groupby_shift_first [OF lt key' none])
      then have fl: "readmitido_30d (out ! i) = Some 0"
        by (simp add: out_nth [OF lt])
      from none have "\<forall>j<i. ident_proxy (out ! j) \<noteq> Some k"
        by (simp add: keys)
      then have "\<not> (\<exists>j<i. ident_proxy (out ! j) = Some k
                   \<and> (\<forall>m. j < m \<and> m < i \<longrightarrow> ident_proxy (out ! m) \<noteq> Some k)
                   \<and> (\<exists>p. dt_saida (out ! j) = Some p \<and> 0 \<le> a - p \<and> a - p \<le> 30))"
        by blast
      with fl show ?thesis by (simp only: if_False)
    qed
    from v key' flag same [OF lt] show ?thesis
      by (intro exI [of _ k] exI [of _ a] exI [of _ n] exI [of _ sx] exI [of _ cp] exI [of _ mu])
        (simp add: k_def)
  qed
  txt \<open>the key is the same exactly when the four fields are\<close>
  have K: "ident_proxy (out ! i) = ident_proxy (out ! j) \<longleftrightarrow>
               munic_res (out ! i) = munic_res (out ! j) \<and> nasc (out ! i) = nasc (out ! j)
               \<and> sexo (out ! i) = sexo (out ! j) \<and> cep_str (out ! i) = cep_str (out ! j)"
    if plain: "munic_res_plain (cleaning df)" and i: "i < length out" and j: "j < length out"
    for i j
  proof -
    from i j have lt: "i < length s" "j < length s" by (simp_all only: len_out)
    then have mem: "s ! i \<in> set s" "s ! j \<in> set s" by simp_all
    from row [OF mem(1)] obtain n sx cp mu where
      vi: "nasc (s ! i) = Some n" "sexo (s ! i) = Some sx" "cep_str (s ! i) = Some cp"
         "munic_res (s ! i) = Some mu"
      and ki: "ident_proxy (s ! i) =
         Some (astype_str (munic_res_dtype dts) (Some mu) @ ''|'' @ strftime_ymd n @ ''|''
                 @ str_number (sexo_dtype dts) sx @ ''|'' @ cp)"
      and ti: "loaded_row.truncate (s ! i) \<in> set (cleaning df)"
      by blast
    from row [OF mem(2)] obtain n' sx' cp' mu' where
      vj: "nasc (s ! j) = Some n'" "sexo (s ! j) = Some sx'" "cep_str (s ! j) = Some cp'"
         "munic_res (s ! j) = Some mu'"
      and kj: "ident_proxy (s ! j) =
         Some (astype_str (munic_res_dtype dts) (Some mu') @ ''|'' @ strftime_ymd n' @ ''|''
                 @ str_number (sexo_dtype dts) sx' @ ''|'' @ cp')"
      and tj: "loaded_row.truncate (s ! j) \<in> set (cleaning df)"
      by blast
    have mi: "munic_res (loaded_row.truncate (s ! i)) = Some mu"
      and mj: "munic_res (loaded_row.truncate (s ! j)) = Some mu'"
      using vi(4) vj(4) by (simp_all add: loaded_row.truncate_def)
    from plain ti tj have "(is_number (Some mu) \<and> is_number (Some mu'))
        \<or> (is_plain_text (Some mu) \<and> is_plain_text (Some mu'))"
      unfolding munic_res_plain_def list_all_iff mi [symmetric] mj [symmetric] by blast
    from key_eq_iff [OF this, of "munic_res_dtype dts" n "sexo_dtype dts" sx cp n' sx' cp']
    have "ident_proxy (s ! i) = ident_proxy (s ! j)
        \<longleftrightarrow> Some mu = Some mu' \<and> n = n' \<and> sx = sx' \<and> cp = cp'"
      by (simp only: ki kj option.inject)
    then have "ident_proxy (s ! i) = ident_proxy (s ! j) \<longleftrightarrow>
               munic_res (s ! i) = munic_res (s ! j) \<and> nasc (s ! i) = nasc (s ! j)
               \<and> sexo (s ! i) = sexo (s ! j) \<and> cep_str (s ! i) = cep_str (s ! j)"
      by (simp only: vi vj option.inject)
    with same [OF lt(1)] same [OF lt(2)] show ?thesis by (simp only:)
  qed
  from K have K': "munic_res_plain (cleaning df) \<longrightarrow>
          (\<forall>i<length out. \<forall>j<length out.
             ident_proxy (out ! i) = ident_proxy (out ! j) \<longleftrightarrow>
               munic_res (out ! i) = munic_res (out ! j) \<and> nasc (out ! i) = nasc (out ! j)
               \<and> sexo (out ! i) = sexo (out ! j) \<and> cep_str (out ! i) = cep_str (out ! j))"
    by blast
  from C have C': "\<forall>i<length out. \<exists>k a n s c mu.
           nasc (out ! i) = Some n \<and> sexo (out ! i) = Some s \<and> cep_str (out ! i) = Some c
           \<and> munic_res (out ! i) = Some mu
           \<and> k = astype_str (munic_res_dtype dts) (Some mu) @ ''|'' @ strftime_ymd n @ ''|''
                 @ str_number (sexo_dtype dts) s @ ''|'' @ c
           \<and> ident_proxy (out ! i) = Some k \<and> dt_inter (out ! i) = Some a
           \<and> readmitido_30d (out ! i) =
               Some (if \<exists>j<i. ident_proxy (out ! j) = Some k
                          \<and> (\<forall>m. j < m \<and> m < i \<longrightarrow> ident_proxy (out ! m) \<noteq> Some k)
                          \<and> (\<exists>p. dt_saida (out ! j) = Some p \<and> 0 \<le> a - p \<and> a - p \<le> 30)
                     then 1 else 0)"
    by (intro allI impI)
  from A B K' C' show ?thesis by (intro conjI)
qed

lemma overflow_far_apart:
  fixes df :: "loaded_row list"
  assumes "list_ex subtraction_overflows (init_intervalo_dias (set_dt_saida_anterior
      (sort_values (set_ident_proxy dts (set_nasc_str (new_frame (cleaning df)))))))"
  shows "\<exists>r\<in>set (cleaning df). \<exists>r'\<in>set (cleaning df). \<exists>a b.
           dt_inter r = Some a \<and> dt_saida r' = Some b \<and> 106751 < \<bar>a - b\<bar>"
proof -
  define kd where "kd = set_ident_proxy dts (set_nasc_str (new_frame (cleaning df)))"
  define s where "s = sort_values kd"
  have set_s: "set s = set kd"
    by (simp add: s_def sort_values_def)
  have clean: "loaded_row.truncate r \<in> set (cleaning df)" if "r \<in> set s" for r
    using that keyed_row [of r dts df] by (simp only: set_s kd_def)
  from assms obtain r where r: "r \<in> set (init_intervalo_dias (set_dt_saida_anterior s))"
    and ov: "subtraction_overflows r"
    unfolding list_ex_iff s_def kd_def by blast
  from r obtain r0 where r0: "r0 \<in> set (groupby_shift Map.empty s)"
    and rr: "r = r0\<lparr>intervalo_dias := None\<rparr>"
    by (auto simp: init_intervalo_dias_def set_dt_saida_anterior_def)
  from ov rr obtain a b where a: "dt_inter r0 = Some a" and b: "dt_saida_anterior r0 = Some b"
    and far: "timedelta_overflows (a - b)"
    by (cases "dt_inter r0"; cases "dt_saida_anterior r0")
      (auto simp: subtraction_overflows_def)
  from groupby_shift_row [OF r0] obtain r1 where r1: "r1 \<in> set s" "dt_inter r0 = dt_inter r1"
    by blast
  from groupby_shift_source [OF r0 b] obtain r2 where r2: "r2 \<in> set s" "dt_saida r2 = Some b"
    by auto
  have 1: "dt_inter (loaded_row.truncate r1) = Some a"
    using r1(2) a by (simp add: loaded_row.truncate_def)
  have 2: "dt_saida (loaded_row.truncate r2) = Some b"
    using r2(2) by (simp add: loaded_row.truncate_def)
  from far have 3: "106751 < \<bar>a - b\<bar>"
    by (simp only: timedelta_overflows_iff)
  from clean [OF r1(1)] clean [OF r2(1)] 1 2 3 show ?thesis by blast
qed

section \<open>Theorem on readmission detection\<close>

text \<open>
  C1. The readmission step is run on the cleaned table, with the column types of
  the loaded table.

  When the step completes, the rows are those of the cleaned table, in the order of their
  identity key and admission date (rows equal in both keep their order: the sort is
  stable). The key of a row is its \<open>munic_res\<close>, birth date, \<open>sexo\<close> and \<open>cep_str\<close> as
  printed, joined by \<^verbatim>\<open>|\<close>; when the municipality column is numeric, or is text without
  \<^verbatim>\<open>|\<close>, two rows have the same key exactly when they agree on these four fields. The
  \<open>readmitido_30d\<close> of a row is 1 exactly when a row of the same key stands before it in
  this order and the days from the \<open>dt_saida\<close> of the nearest such row to its own
  \<open>dt_inter\<close> are between 0 and 30; otherwise it is 0.

  The step can raise only \<^verbatim>\<open>OverflowError\<close>, and only when the table has an admission
  date and a discharge date more than 106751 days apart; the section then prints the
  error, sets \<open>readmitido_30d\<close> to 0 in every row and keeps the rows. When no admission
  date and discharge date of the table are more than 106751 days apart, the step
  completes.
\<close>

theorem readmitido_30d_unless_overflow:
  fixes df :: "loaded_row list"
  shows "let dts = dtypes_of df; cleaned = cleaning df;
             result = identify_readmissions dts (new_frame cleaned) in
     (\<forall>out. result = Inr out \<longrightarrow>
        mset (map loaded_row.truncate out) = mset cleaned
        \<and> sorted (map (\<lambda>r. (ident_proxy r, dt_inter r)) out)
        \<and> (munic_res_plain cleaned \<longrightarrow>
             (\<forall>i<length out. \<forall>j<length out.
                ident_proxy (out ! i) = ident_proxy (out ! j) \<longleftrightarrow>
                  munic_res (out ! i) = munic_res (out ! j) \<and> nasc (out ! i) = nasc (out ! j)
                  \<and> sexo (out ! i) = sexo (out ! j) \<and> cep_str (out ! i) = cep_str (out ! j)))
        \<and> (\<forall>i<length out. \<exists>k a n s c mu.
              nasc (out ! i) = Some n \<and> sexo (out ! i) = Some s \<and> cep_str (out ! i) = Some c
              \<and> munic_res (out ! i) = Some mu
              \<and> k = astype_str (munic_res_dtype dts) (Some mu) @ ''|'' @ strftime_ymd n @ ''|''
                    @ str_number (sexo_dtype dts) s @ ''|'' @ c
              \<and> ident_proxy (out ! i) = Some k \<and> dt_inter (out ! i) = Some a
              \<and> readmitido_30d (out ! i) =
                  Some (if \<exists>j<i. ident_proxy (out ! j) = Some k
                             \<and> (\<forall>m. j < m \<and> m < i \<longrightarrow> ident_proxy (out ! m) \<noteq> Some k)
                             \<and> (\<exists>p. dt_saida (out ! j) = Some p \<and> 0 \<le> a - p \<and> a - p \<le> 30)
                        then 1 else 0)))
     \<and> (\<forall>e partial. result = Inl (e, partial) \<longrightarrow>
          e = ''OverflowError''
          \<and> (\<exists>r\<in>set cleaned. \<exists>r'\<in>set cleaned. \<exists>a b.
                dt_inter r = Some a \<and> dt_saida r' = Some b \<and> 106751 < \<bar>a - b\<bar>)
          \<and> (\<exists>df'. readmission_section dts None (new_frame cleaned)
                      = Continue (df', [Erro_na_identificacao e, Aviso_coluna_com_zeros])
                \<and> (\<forall>r\<in>set df'. readmitido_30d r = Some 0)
                \<and> mset (map loaded_row.truncate df') = mset cleaned))
     \<and> ((\<forall>r\<in>set cleaned. \<forall>r'\<in>set cleaned. \<forall>a b.
            dt_inter r = Some a \<and> dt_saida r' = Some b \<longrightarrow> \<bar>a - b\<bar> \<le> 106751)
          \<longrightarrow> (\<exists>out. result = Inr out))"
proof -
  define dts where "dts = dtypes_of df"
  define cleaned where "cleaned = cleaning df"
  define g where "g = init_intervalo_dias (set_dt_saida_anterior
      (sort_values (set_ident_proxy dts (set_nasc_str (new_frame cleaned)))))"
  define fin where "fin = set_readmitido_30d (assign_intervalo_dias g)"
  define result where "result = identify_readmissions dts (new_frame cleaned)"
  have cases: "result = (if list_ex subtraction_overflows g then Inl (''OverflowError'', g)
      else Inr fin)"
    by (simp only: result_def identify_cases g_def fin_def)
  have far: "\<exists>r\<in>set cleaned. \<exists>r'\<in>set cleaned. \<exists>a b.
                dt_inter r = Some a \<and> dt_saida r' = Some b \<and> 106751 < \<bar>a - b\<bar>"
    if "list_ex subtraction_overflows g"
    using that unfolding g_def cleaned_def by (rule overflow_far_apart)
  txt \<open>the step completes\<close>
  have rows: "mset (map loaded_row.truncate fin) = mset cleaned
        \<and> sorted (map (\<lambda>r. (ident_proxy r, dt_inter r)) fin)
        \<and> (munic_res_plain cleaned \<longrightarrow>
             (\<forall>i<length fin. \<forall>j<length fin.
                ident_proxy (fin ! i) = ident_proxy (fin ! j) \<longleftrightarrow>
                  munic_res (fin ! i) = munic_res (fin ! j) \<and> nasc (fin ! i) = nasc (fin ! j)
                  \<and> sexo (fin ! i) = sexo (fin ! j) \<and> cep_str (fin ! i) = cep_str (fin ! j)))
        \<and> (\<forall>i<length fin. \<exists>k a n s c mu.
              nasc (fin ! i) = Some n \<and> sexo (fin ! i) = Some s \<and> cep_str (fin ! i) = Some c
              \<and> munic_res (fin ! i) = Some mu
              \<and> k = astype_str (munic_res_dtype dts) (Some mu) @ ''|'' @ strftime_ymd n @ ''|''
                    @ str_number (sexo_dtype dts) s @ ''|'' @ c
              \<and> ident_proxy (fin ! i) = Some k \<and> dt_inter (fin ! i) = Some a
              \<and> readmitido_30d (fin ! i) =
                  Some (if \<exists>j<i. ident_proxy (fin ! j) = Some k
                             \<and> (\<forall>m. j < m \<and> m < i \<longrightarrow> ident_proxy (fin ! m) \<noteq> Some k)
                             \<and> (\<exists>p. dt_saida (fin ! j) = Some p \<and> 0 \<le> a - p \<and> a - p \<le> 30)
                        then 1 else 0))"
    unfolding cleaned_def
    by (rule readmission_rows) (simp only: fin_def g_def cleaned_def)
  have P1: "\<forall>out. result = Inr out \<longrightarrow>
        mset (map loaded_row.truncate out) = mset cleaned
        \<and> sorted (map (\<lambda>r. (ident_proxy r, dt_inter r)) out)
        \<and> (munic_res_plain cleaned \<longrightarrow>
             (\<forall>i<length out. \<forall>j<length out.
                ident_proxy (out ! i) = ident_proxy (out ! j) \<longleftrightarrow>
                  munic_res (out ! i) = munic_res (out ! j) \<and> nasc (out ! i) = nasc (out ! j)
                  \<and> sexo (out ! i) = sexo (out ! j) \<and> cep_str (out ! i) = cep_str (out ! j)))
        \<and> (\<forall>i<length out. \<exists>k a n s c mu.
              nasc (out ! i) = Some n \<and> sexo (out ! i) = Some s \<and> cep_str (out ! i) = Some c
              \<and> munic_res (out ! i) = Some mu
              \<and> k = astype_str (munic_res_dtype dts) (Some mu) @ ''|'' @ strftime_ymd n @ ''|''
                    @ str_number (sexo_dtype dts) s @ ''|'' @ c
              \<and> ident_proxy (out ! i) = Some k \<and> dt_inter (out ! i) = Some a
              \<and> readmitido_30d (out ! i) =
                  Some (if \<exists>j<i. ident_proxy (out ! j) = Some k
                             \<and> (\<forall>m. j < m \<and> m < i \<longrightarrow> ident_proxy (out ! m) \<noteq> Some k)
                             \<and> (\<exists>p. dt_saida (out ! j) = Some p \<and> 0 \<le> a - p \<and> a - p \<le> 30)
                        then 1 else 0))"
  proof (intro allI impI)
    fix out assume "result = Inr out"
    with cases have eq: "out = fin"
      by (cases "list_ex subtraction_overflows g") simp_all
    show "mset (map loaded_row.truncate out) = mset cleaned
        \<and> sorted (map (\<lambda>r. (ident_proxy r, dt_inter r)) out)
        \<and> (munic_res_plain cleaned \<longrightarrow>
             (\<forall>i<length out. \<forall>j<length out.
                ident_proxy (out ! i) = ident_proxy (out ! j) \<longleftrightarrow>
                  munic_res (out ! i) = munic_res (out ! j) \<and> nasc (out ! i) = nasc (out ! j)
                  \<and> sexo (out ! i) = sexo (out ! j) \<and> cep_str (out ! i) = cep_str (out ! j)))
        \<and> (\<forall>i<length out. \<exists>k a n s c mu.
              nasc (out ! i) = Some n \<and> sexo (out ! i) = Some s \<and> cep_str (out ! i) = Some c
              \<and> munic_res (out ! i) = Some mu
              \<and> k = astype_str (munic_res_dtype dts) (Some mu) @ ''|'' @ strftime_ymd n @ ''|''
                    @ str_number (sexo_dtype dts) s @ ''|'' @ c
              \<and> ident_proxy (out ! i) = Some k \<and> dt_inter (out ! i) = Some a
              \<and> readmitido_30d (out ! i) =
                  Some (if \<exists>j<i. ident_proxy (out ! j) = Some k
                             \<and> (\<forall>m. j < m \<and> m < i \<longrightarrow> ident_proxy (out ! m) \<noteq> Some k)
                             \<and> (\<exists>p. dt_saida (out ! j) = Some p \<and> 0 \<le> a - p \<and> a - p \<le> 30)
                        then 1 else 0))"
      unfolding eq by (rule rows)
  qed
  txt \<open>the step raises\<close>
  have P2: "\<forall>e partial. result = Inl (e, partial) \<longrightarrow>
          e = ''OverflowError''
          \<and> (\<exists>r\<in>set cleaned. \<exists>r'\<in>set cleaned. \<exists>a b.
                dt_inter r = Some a \<and> dt_saida r' = Some b \<and> 106751 < \<bar>a - b\<bar>)
          \<and> (\<exists>df'. readmission_section dts None (new_frame cleaned)
                      = Continue (df', [Erro_na_identificacao e, Aviso_coluna_com_zeros])
                \<and> (\<forall>r\<in>set df'. readmitido_30d r = Some 0)
                \<and> mset (map loaded_row.truncate df') = mset cleaned)"
  proof (intro allI impI)
    fix e partial assume raised: "result = Inl (e, partial)"
    with cases have ov: "list_ex subtraction_overflows g"
      by (cases "list_ex subtraction_overflows g") simp_all
    with cases raised have e: "e = ''OverflowError''" and p: "partial = g"
      by simp_all
    let ?df' = "map (\<lambda>r. r\<lparr>readmitido_30d := Some 0\<rparr>) g"
    have "run_statements (try_body dts) None (new_frame cleaned) = Inl (e, g)"
      using raised p by (simp only: result_def identify_readmissions_def)
    then have 1: "readmission_section dts None (new_frame cleaned)
        = Continue (?df', [Erro_na_identificacao e, Aviso_coluna_com_zeros])"
      by (simp add: readmission_section_def)
    have 2: "\<forall>r\<in>set ?df'. readmitido_30d r = Some 0"
      by simp
    have "mset (map loaded_row.truncate g) = mset cleaned"
      by (simp only: g_def statement_preserves truncate_new_frame)
    then have 3: "mset (map loaded_row.truncate ?df') = mset cleaned"
      by (simp add: comp_def)
    from 1 2 3 have "\<exists>df'. readmission_section dts None (new_frame cleaned)
                      = Continue (df', [Erro_na_identificacao e, Aviso_coluna_com_zeros])
                \<and> (\<forall>r\<in>set df'. readmitido_30d r = Some 0)
                \<and> mset (map loaded_row.truncate df') = mset cleaned"
      by (intro exI [of _ ?df'] conjI)
    with e far [OF ov] show "e = ''OverflowError''
          \<and> (\<exists>r\<in>set cleaned. \<exists>r'\<in>set cleaned. \<exists>a b.
                dt_inter r = Some a \<and> dt_saida r' = Some b \<and> 106751 < \<bar>a - b\<bar>)
          \<and> (\<exists>df'. readmission_section dts None (new_frame cleaned)
                      = Continue (df', [Erro_na_identificacao e, Aviso_coluna_com_zeros])
                \<and> (\<forall>r\<in>set df'. readmitido_30d r = Some 0)
                \<and> mset (map loaded_row.truncate df') = mset cleaned)"
      by (intro conjI)
  qed
  txt \<open>dates within 106751 days of each other\<close>
  have P3: "(\<forall>r\<in>set cleaned. \<forall>r'\<in>set cleaned. \<forall>a b.
            dt_inter r = Some a \<and> dt_saida r' = Some b \<longrightarrow> \<bar>a - b\<bar> \<le> 106751)
          \<longrightarrow> (\<exists>out. result = Inr out)"
  proof
    assume near: "\<forall>r\<in>set cleaned. \<forall>r'\<in>set cleaned. \<forall>a b.
            dt_inter r = Some a \<and> dt_saida r' = Some b \<longrightarrow> \<bar>a - b\<bar> \<le> 106751"
    have "\<not> list_ex subtraction_overflows g"
    proof
      assume "list_ex subtraction_overflows g"
      from far [OF this] obtain r r' a b where "r \<in> set cleaned" "r' \<in> set cleaned"
        "dt_inter r = Some a" "dt_saida r' = Some b" "106751 < \<bar>a - b\<bar>"
        by blast
      with near show False by fastforce
    qed
    with cases have "result = Inr fin" by simp
    then show "\<exists>out. result = Inr out" ..
  qed
  from P1 P2 P3 show ?thesis
    unfolding Let_def dts_def [symmetric] cleaned_def [symmetric] result_def [symmetric]
    by (intro conjI)
qed

lemma digit_chars:
  "digit_char 0 = CHR ''0''" "digit_char 1 = CHR ''1''" "digit_char 2 = CHR ''2''"
  "digit_char 3 = CHR ''3''" "digit_char 4 = CHR ''4''" "digit_char 5 = CHR ''5''"
  "digit_char 6 = CHR ''6''" "digit_char 7 = CHR ''7''" "digit_char 8 = CHR ''8''"
  "digit_char 9 = CHR ''9''" "digit_char (Suc 0) = CHR ''1''"
  by code_simp+

lemma str_int_examples:
  "str_int 355030 = ''355030''" "str_int 431490 = ''431490''" "str_int 1 = ''1''"
  by (simp_all add: str_int_def digit_chars
      str_nat.simps [of 355030] str_nat.simps [of 35503] str_nat.simps [of 3550]
      str_nat.simps [of 355] str_nat.simps [of 35] str_nat.simps [of 3]
      str_nat.simps [of 431490] str_nat.simps [of 43149] str_nat.simps [of 4314]
      str_nat.simps [of 431] str_nat.simps [of 43] str_nat.simps [of 4]
      str_nat.simps [of "Suc 0"])

lemma str_int_1970: "str_int 1970 = ''1970''"
  by (simp add: str_int_def digit_chars str_nat.simps [of 1970] str_nat.simps [of 197]
      str_nat.simps [of 19] str_nat.simps [of "Suc 0"])

lemma civil_from_days_epoch: "civil_from_days 0 = (1970, 1, 1)"
proof -
  have z: "(0::int) + 719468 = 719468" by simp
  have era: "(719468::int) div 146097 = 4" by simp
  have doe: "(719468::int) mod 146097 = 135080" by simp
  have c: "(135080::int) div 36524 = 3" by simp
  have doc: "(135080::int) - 36524 * 3 = 25508" by simp
  have q: "(25508::int) div 1461 = 17" by simp
  have doq: "(25508::int) - 1461 * 17 = 671" by simp
  have yoq: "(671::int) div 365 = 1" by simp
  have doy: "(671::int) - 365 * 1 = 306" by simp
  have yoe: "(100::int) * 3 + 4 * 17 + 1 = 369" by simp
  have mp: "(5 * 306 + 2) div 153 = (10::int)" by simp
  have d: "(306::int) - (153 * 10 + 2) div 5 + 1 = 1" by simp
  show ?thesis
    unfolding civil_from_days_def Let_def z era doe c doc q doq yoq doy yoe mp d
    by simp
qed

lemma strftime_ymd_epoch: "strftime_ymd 0 = ''1970-01-01''"
  by (simp add: strftime_ymd_def civil_from_days_epoch two_digits_def str_int_1970
      str_int_examples)

lemma ev_clean: "cleaning example_table =
     [example_row 355030 40 120 125, example_row 431490 40 105 106,
      example_row 355030 40 100 110]"
  by (simp add: cleaning_def example_table_def example_row_def notna_subset_def)

lemma ev_dtypes: "dtypes_of example_table = \<lparr>sexo_dtype = Int64, munic_res_dtype = Int64\<rparr>"
  by (simp add: dtypes_of_def column_dtype_def example_table_def example_row_def)

lemmas readmission_defs =
  identify_readmissions_def try_body_def returns_def new_frame_def example_row_def
  set_nasc_str_def set_ident_proxy_def sort_values_def set_dt_saida_anterior_def
  init_intervalo_dias_def fill_intervalo_dias_def assign_intervalo_dias_def
  subtraction_overflows_def timedelta_overflows_def set_readmitido_30d_def proxy_of_def
  astype_str_def na_last_def str_number_def str_int_examples
  loaded_row.extend_def frame_row.fields_def

lemma ev_out:
  "identify_readmissions (dtypes_of example_table) (new_frame (cleaning example_table)) = Inr out
   \<Longrightarrow> map (\<lambda>r. (munic_res r, nasc r, sexo r, cep_str r, dt_inter r, dt_saida r,
                   readmitido_30d r)) out =
   [(Some (Num 355030), Some 0, Some 1, Some ''01310'', Some 100, Some 110, Some 0),
    (Some (Num 355030), Some 0, Some 1, Some ''01310'', Some 120, Some 125, Some 1),
    (Some (Num 431490), Some 0, Some 1, Some ''01310'', Some 105, Some 106, Some 0)]"
  by (simp add: ev_clean ev_dtypes readmission_defs) auto

lemma ev_near:
  "\<forall>r\<in>set (cleaning example_table). \<forall>r'\<in>set (cleaning example_table). \<forall>a b.
      dt_inter r = Some a \<and> dt_saida r' = Some b \<longrightarrow> \<bar>a - b\<bar> \<le> 106751"
  by (simp add: ev_clean example_row_def)

lemma ev_plain: "munic_res_plain (cleaning example_table)"
  by (simp add: ev_clean munic_res_plain_def example_row_def)

lemma ev_clean_float: "cleaning float_table = cleaning example_table"
  by (simp add: float_table_def cleaning_def example_row_def notna_subset_def)

lemma ev_dtypes_float:
  "dtypes_of float_table = \<lparr>sexo_dtype = Float64, munic_res_dtype = Int64\<rparr>"
  by (simp add: dtypes_of_def column_dtype_def float_table_def example_table_def example_row_def)

lemma ev_out_float:
  "identify_readmissions (dtypes_of float_table) (new_frame (cleaning float_table)) = Inr out
   \<Longrightarrow> map (\<lambda>r. (munic_res r, nasc r, sexo r, cep_str r, dt_inter r, dt_saida r,
                   readmitido_30d r)) out =
   [(Some (Num 355030), Some 0, Some 1, Some ''01310'', Some 100, Some 110, Some 0),
    (Some (Num 355030), Some 0, Some 1, Some ''01310'', Some 120, Some 125, Some 1),
    (Some (Num 431490), Some 0, Some 1, Some ''01310'', Some 105, Some 106, Some 0)]"
  unfolding ev_clean_float ev_dtypes_float
  by (simp add: ev_clean readmission_defs) auto

lemma ev_clean_overflow: "cleaning overflow_table = overflow_table"
  by (simp add: cleaning_def overflow_table_def example_row_def notna_subset_def)

lemma ev_length_overflow: "length (cleaning overflow_table) = Suc (Suc (Suc (Suc 0)))"
  unfolding ev_clean_overflow by (simp add: overflow_table_def)

lemma ev_dtypes_overflow:
  "dtypes_of overflow_table = \<lparr>sexo_dtype = Int64, munic_res_dtype = Int64\<rparr>"
  by (simp add: dtypes_of_def column_dtype_def overflow_table_def example_row_def)

lemma ev_overflow_raises:
  "\<exists>partial. identify_readmissions (dtypes_of overflow_table)
      (new_frame (cleaning overflow_table)) = Inl (''OverflowError'', partial)"
  unfolding ev_clean_overflow ev_dtypes_overflow
  by (simp add: overflow_table_def readmission_defs)

lemma ev_near_float:
  "\<forall>r\<in>set (cleaning float_table). \<forall>r'\<in>set (cleaning float_table). \<forall>a b.
      dt_inter r = Some a \<and> dt_saida r' = Some b \<longrightarrow> \<bar>a - b\<bar> \<le> 106751"
  unfolding ev_clean_float by (rule ev_near)

lemma completes_and_rows:
  assumes "(\<forall>out. R = Inr out \<longrightarrow> A out \<and> B out \<and> K out \<and> D out) \<and> P \<and> (N \<longrightarrow> (\<exists>out. R = Inr out))"
  shows "N \<Longrightarrow> \<exists>out. R = Inr out" and "R = Inr out \<Longrightarrow> D out"
  using assms by blast+

lemma map_const_replicate:
  "\<forall>x\<in>set xs. f x = c \<Longrightarrow> map f xs = replicate (length xs) c"
  by (induction xs) simp_all

theorem readmitido_30d_overflow_counterexample:
  "printed_of overflow_section = [Erro_na_identificacao ''OverflowError'', Aviso_coluna_com_zeros]
   \<and> map munic_res (table_of overflow_section)
       = [Some (Num 355030), Some (Num 355030), Some (Num 431490), Some (Num 431490)]
   \<and> map nasc (table_of overflow_section) = [Some 0, Some 0, Some 0, Some 0]
   \<and> map sexo (table_of overflow_section) = [Some 1, Some 1, Some 1, Some 1]
   \<and> map cep_str (table_of overflow_section)
       = [Some ''01310'', Some ''01310'', Some ''01310'', Some ''01310'']
   \<and> map ident_proxy (table_of overflow_section)
       = [Some ''355030|1970-01-01|1|01310'', Some ''355030|1970-01-01|1|01310'',
          Some ''431490|1970-01-01|1|01310'', Some ''431490|1970-01-01|1|01310'']
   \<and> map dt_inter (table_of overflow_section) = [Some (- 100000), Some 20000, Some 100, Some 110]
   \<and> map dt_saida (table_of overflow_section) = [Some (- 99990), Some 20010, Some 105, Some 112]
   \<and> map readmitido_30d (table_of overflow_section) = [Some 0, Some 0, Some 0, Some 0]"
  unfolding overflow_section_def ev_clean_overflow ev_dtypes_overflow
  by (simp add: table_of_def printed_of_def readmission_section_def overflow_table_def
      readmission_defs strftime_ymd_epoch)

theorem readmitido_30d_unless_overflow_witness:
  "(\<exists>out. identify_readmissions (dtypes_of example_table) (new_frame (cleaning example_table))
            = Inr out
        \<and> map readmitido_30d out = [Some 0, Some 1, Some 0]
        \<and> ident_proxy (out ! 0) = Some ''355030|1970-01-01|1|01310''
        \<and> ident_proxy (out ! 1) = ident_proxy (out ! 0)
        \<and> ident_proxy (out ! 1) \<noteq> ident_proxy (out ! 2)
        \<and> (\<exists>j<1. ident_proxy (out ! j) = ident_proxy (out ! 1)
              \<and> (\<exists>p a. dt_saida (out ! j) = Some p \<and> dt_inter (out ! 1) = Some a
                    \<and> 0 \<le> a - p \<and> a - p \<le> 30)))
   \<and> (\<exists>partial df'.
          identify_readmissions (dtypes_of overflow_table) (new_frame (cleaning overflow_table))
            = Inl (''OverflowError'', partial)
        \<and> readmission_section (dtypes_of overflow_table) None (new_frame (cleaning overflow_table))
            = Continue (df', [Erro_na_identificacao ''OverflowError'', Aviso_coluna_com_zeros])
        \<and> map readmitido_30d df' = [Some 0, Some 0, Some 0, Some 0])
   \<and> (\<exists>out. identify_readmissions (dtypes_of float_table) (new_frame (cleaning float_table))
            = Inr out
        \<and> ident_proxy (out ! 0) = Some ''355030|1970-01-01|1.0|01310'')"
proof -
  let ?f = "\<lambda>r::frame_row. (munic_res r, nasc r, sexo r, cep_str r, dt_inter r, dt_saida r,
      readmitido_30d r)"
  note ex = readmitido_30d_unless_overflow [of example_table, unfolded Let_def]
  note ov = readmitido_30d_unless_overflow [of overflow_table, unfolded Let_def]
  txt \<open>the example table: the step completes\<close>
  from ex have "(\<forall>r\<in>set (cleaning example_table). \<forall>r'\<in>set (cleaning example_table). \<forall>a b.
            dt_inter r = Some a \<and> dt_saida r' = Some b \<longrightarrow> \<bar>a - b\<bar> \<le> 106751)
          \<longrightarrow> (\<exists>out. identify_readmissions (dtypes_of example_table)
                  (new_frame (cleaning example_table)) = Inr out)"
    by (elim conjE)
  with ev_near obtain out where out: "identify_readmissions (dtypes_of example_table)
      (new_frame (cleaning example_table)) = Inr out"
    by blast
  note vals = ev_out [OF out]
  from vals have "length (map ?f out) = 3" by simp
  then have len: "length out = 3" by simp
  have lt: "(0::nat) < length out" "(1::nat) < length out" "(2::nat) < length out"
    by (simp_all add: len)
  have r0: "?f (out ! 0) = map ?f out ! 0" using lt(1) by (simp only: nth_map)
  have r1: "?f (out ! 1) = map ?f out ! 1" using lt(2) by (simp only: nth_map)
  have r2: "?f (out ! 2) = map ?f out ! 2" using lt(3) by (simp only: nth_map)
  have rows: "?f (out ! 0) = (Some (Num 355030), Some 0, Some 1, Some ''01310'', Some 100, Some 110, Some 0)"
      "?f (out ! 1) = (Some (Num 355030), Some 0, Some 1, Some ''01310'', Some 120, Some 125, Some 1)"
      "?f (out ! 2) = (Some (Num 431490), Some 0, Some 1, Some ''01310'', Some 105, Some 106, Some 0)"
    unfolding r0 r1 r2 vals by simp_all
  have flags: "map readmitido_30d out = [Some 0, Some 1, Some 0]"
  proof -
    have "map readmitido_30d out = map (\<lambda>t. snd (snd (snd (snd (snd (snd t)))))) (map ?f out)"
      by simp
    then show ?thesis by (simp add: vals)
  qed
  from ex have part1: "\<forall>out. identify_readmissions (dtypes_of example_table)
         (new_frame (cleaning example_table)) = Inr out \<longrightarrow>
        mset (map loaded_row.truncate out) = mset (cleaning example_table)
        \<and> sorted (map (\<lambda>r. (ident_proxy r, dt_inter r)) out)
        \<and> (munic_res_plain (cleaning example_table) \<longrightarrow>
             (\<forall>i<length out. \<forall>j<length out.
                ident_proxy (out ! i) = ident_proxy (out ! j) \<longleftrightarrow>
                  munic_res (out ! i) = munic_res (out ! j) \<and> nasc (out ! i) = nasc (out ! j)
                  \<and> sexo (out ! i) = sexo (out ! j) \<and> cep_str (out ! i) = cep_str (out ! j)))
        \<and> (\<forall>i<length out. \<exists>k a n s c mu.
              nasc (out ! i) = Some n \<and> sexo (out ! i) = Some s \<and> cep_str (out ! i) = Some c
              \<and> munic_res (out ! i) = Some mu
              \<and> k = astype_str (munic_res_dtype (dtypes_of example_table)) (Some mu) @ ''|''
                    @ strftime_ymd n @ ''|''
                    @ str_number (sexo_dtype (dtypes_of example_table)) s @ ''|'' @ c
              \<and> ident_proxy (out ! i) = Some k \<and> dt_inter (out ! i) = Some a
              \<and> readmitido_30d (out ! i) =
                  Some (if \<exists>j<i. ident_proxy (out ! j) = Some k
                             \<and> (\<forall>m. j < m \<and> m < i \<longrightarrow> ident_proxy (out ! m) \<noteq> Some k)
                             \<and> (\<exists>p. dt_saida (out ! j) = Some p \<and> 0 \<le> a - p \<and> a - p \<le> 30)
                        then 1 else 0))"
    by (rule conjunct1)
  from part1 out have all: "mset (map loaded_row.truncate out) = mset (cleaning example_table)
        \<and> sorted (map (\<lambda>r. (ident_proxy r, dt_inter r)) out)
        \<and> (munic_res_plain (cleaning example_table) \<longrightarrow>
             (\<forall>i<length out. \<forall>j<length out.
                ident_proxy (out ! i) = ident_proxy (out ! j) \<longleftrightarrow>
                  munic_res (out ! i) = munic_res (out ! j) \<and> nasc (out ! i) = nasc (out ! j)
                  \<and> sexo (out ! i) = sexo (out ! j) \<and> cep_str (out ! i) = cep_str (out ! j)))
        \<and> (\<forall>i<length out. \<exists>k a n s c mu.
              nasc (out ! i) = Some n \<and> sexo (out ! i) = Some s \<and> cep_str (out ! i) = Some c
              \<and> munic_res (out ! i) = Some mu
              \<and> k = astype_str (munic_res_dtype (dtypes_of example_table)) (Some mu) @ ''|''
                    @ strftime_ymd n @ ''|''
                    @ str_number (sexo_dtype (dtypes_of example_table)) s @ ''|'' @ c
              \<and> ident_proxy (out ! i) = Some k \<and> dt_inter (out ! i) = Some a
              \<and> readmitido_30d (out ! i) =
                  Some (if \<exists>j<i. ident_proxy (out ! j) = Some k
                             \<and> (\<forall>m. j < m \<and> m < i \<longrightarrow> ident_proxy (out ! m) \<noteq> Some k)
                             \<and> (\<exists>p. dt_saida (out ! j) = Some p \<and> 0 \<le> a - p \<and> a - p \<le> 30)
                        then 1 else 0))"
    by blast
  from all have "munic_res_plain (cleaning example_table) \<longrightarrow>
             (\<forall>i<length out. \<forall>j<length out.
                ident_proxy (out ! i) = ident_proxy (out ! j) \<longleftrightarrow>
                  munic_res (out ! i) = munic_res (out ! j) \<and> nasc (out ! i) = nasc (out ! j)
                  \<and> sexo (out ! i) = sexo (out ! j) \<and> cep_str (out ! i) = cep_str (out ! j))"
    by (elim conjE)
  with ev_plain have keys: "\<forall>i<length out. \<forall>j<length out.
                ident_proxy (out ! i) = ident_proxy (out ! j) \<longleftrightarrow>
                  munic_res (out ! i) = munic_res (out ! j) \<and> nasc (out ! i) = nasc (out ! j)
                  \<and> sexo (out ! i) = sexo (out ! j) \<and> cep_str (out ! i) = cep_str (out ! j)"
    by (rule rev_mp)
  from keys lt(2) lt(1) have "ident_proxy (out ! 1) = ident_proxy (out ! 0) \<longleftrightarrow>
                  munic_res (out ! 1) = munic_res (out ! 0) \<and> nasc (out ! 1) = nasc (out ! 0)
                  \<and> sexo (out ! 1) = sexo (out ! 0) \<and> cep_str (out ! 1) = cep_str (out ! 0)"
    by blast
  with rows have k10: "ident_proxy (out ! 1) = ident_proxy (out ! 0)"
    by simp
  from keys lt(2) lt(3) have "ident_proxy (out ! 1) = ident_proxy (out ! 2) \<longleftrightarrow>
                  munic_res (out ! 1) = munic_res (out ! 2) \<and> nasc (out ! 1) = nasc (out ! 2)
                  \<and> sexo (out ! 1) = sexo (out ! 2) \<and> cep_str (out ! 1) = cep_str (out ! 2)"
    by blast
  with rows have k12: "ident_proxy (out ! 1) \<noteq> ident_proxy (out ! 2)"
    by simp
  from all have each: "\<forall>i<length out. \<exists>k a n s c mu.
              nasc (out ! i) = Some n \<and> sexo (out ! i) = Some s \<and> cep_str (out ! i) = Some c
              \<and> munic_res (out ! i) = Some mu
              \<and> k = astype_str (munic_res_dtype (dtypes_of example_table)) (Some mu) @ ''|''
                    @ strftime_ymd n @ ''|''
                    @ str_number (sexo_dtype (dtypes_of example_table)) s @ ''|'' @ c
              \<and> ident_proxy (out ! i) = Some k \<and> dt_inter (out ! i) = Some a
              \<and> readmitido_30d (out ! i) =
                  Some (if \<exists>j<i. ident_proxy (out ! j) = Some k
                             \<and> (\<forall>m. j < m \<and> m < i \<longrightarrow> ident_proxy (out ! m) \<noteq> Some k)
                             \<and> (\<exists>p. dt_saida (out ! j) = Some p \<and> 0 \<le> a - p \<and> a - p \<le> 30)
                        then 1 else 0)"
    by (elim conjE)
  from each lt(1) obtain k0 n0 s0 c0 mu0 where
    v0: "nasc (out ! 0) = Some n0" "sexo (out ! 0) = Some s0" "cep_str (out ! 0) = Some c0"
      "munic_res (out ! 0) = Some mu0"
    and k0: "k0 = astype_str (munic_res_dtype (dtypes_of example_table)) (Some mu0) @ ''|''
                    @ strftime_ymd n0 @ ''|''
                    @ str_number (sexo_dtype (dtypes_of example_table)) s0 @ ''|'' @ c0"
    and p0: "ident_proxy (out ! 0) = Some k0"
    by blast
  from v0 rows(1) have "n0 = 0" "s0 = 1" "c0 = ''01310''" "mu0 = Num 355030"
    by simp_all
  with k0 p0 have key0: "ident_proxy (out ! 0) = Some ''355030|1970-01-01|1|01310''"
    by (simp add: ev_dtypes astype_str_def str_number_def str_int_examples strftime_ymd_epoch)
  from each lt(2) obtain k a where k: "ident_proxy (out ! 1) = Some k" and a: "dt_inter (out ! 1) = Some a"
    and r: "readmitido_30d (out ! 1) =
               Some (if \<exists>j<1. ident_proxy (out ! j) = Some k
                          \<and> (\<forall>m. j < m \<and> m < 1 \<longrightarrow> ident_proxy (out ! m) \<noteq> Some k)
                          \<and> (\<exists>p. dt_saida (out ! j) = Some p \<and> 0 \<le> a - p \<and> a - p \<le> 30)
                     then 1 else 0)"
    by blast
  from rows(2) have "readmitido_30d (out ! 1) = Some 1" by simp
  with r have "\<exists>j<1. ident_proxy (out ! j) = Some k
                          \<and> (\<forall>m. j < m \<and> m < 1 \<longrightarrow> ident_proxy (out ! m) \<noteq> Some k)
                          \<and> (\<exists>p. dt_saida (out ! j) = Some p \<and> 0 \<le> a - p \<and> a - p \<le> 30)"
    by (simp split: if_splits)
  then obtain j p where "j < 1" "ident_proxy (out ! j) = Some k" "dt_saida (out ! j) = Some p"
    "0 \<le> a - p" "a - p \<le> 30"
    by blast
  with k a have near: "\<exists>j<1. ident_proxy (out ! j) = ident_proxy (out ! 1)
        \<and> (\<exists>p a. dt_saida (out ! j) = Some p \<and> dt_inter (out ! 1) = Some a
              \<and> 0 \<le> a - p \<and> a - p \<le> 30)"
    by auto
  from out flags key0 k10 k12 near
  have A: "\<exists>out. identify_readmissions (dtypes_of example_table) (new_frame (cleaning example_table))
            = Inr out
        \<and> map readmitido_30d out = [Some 0, Some 1, Some 0]
        \<and> ident_proxy (out ! 0) = Some ''355030|1970-01-01|1|01310''
        \<and> ident_proxy (out ! 1) = ident_proxy (out ! 0)
        \<and> ident_proxy (out ! 1) \<noteq> ident_proxy (out ! 2)
        \<and> (\<exists>j<1. ident_proxy (out ! j) = ident_proxy (out ! 1)
              \<and> (\<exists>p a. dt_saida (out ! j) = Some p \<and> dt_inter (out ! 1) = Some a
                    \<and> 0 \<le> a - p \<and> a - p \<le> 30))"
    by (intro exI [of _ out] conjI)
  txt \<open>the table with dates too far apart: the step raises and the handler takes over\<close>
  from ev_overflow_raises obtain partial where raised:
    "identify_readmissions (dtypes_of overflow_table) (new_frame (cleaning overflow_table))
       = Inl (''OverflowError'', partial)" ..
  from ov have "\<forall>e partial. identify_readmissions (dtypes_of overflow_table)
          (new_frame (cleaning overflow_table)) = Inl (e, partial) \<longrightarrow>
          e = ''OverflowError''
          \<and> (\<exists>r\<in>set (cleaning overflow_table). \<exists>r'\<in>set (cleaning overflow_table). \<exists>a b.
                dt_inter r = Some a \<and> dt_saida r' = Some b \<and> 106751 < \<bar>a - b\<bar>)
          \<and> (\<exists>df'. readmission_section (dtypes_of overflow_table) None
                        (new_frame (cleaning overflow_table))
                      = Continue (df', [Erro_na_identificacao e, Aviso_coluna_com_zeros])
                \<and> (\<forall>r\<in>set df'. readmitido_30d r = Some 0)
                \<and> mset (map loaded_row.truncate df') = mset (cleaning overflow_table))"
    by (elim conjE)
  with raised have "\<exists>df'. readmission_section (dtypes_of overflow_table) None
                        (new_frame (cleaning overflow_table))
                      = Continue (df', [Erro_na_identificacao ''OverflowError'', Aviso_coluna_com_zeros])
                \<and> (\<forall>r\<in>set df'. readmitido_30d r = Some 0)
                \<and> mset (map loaded_row.truncate df') = mset (cleaning overflow_table)"
    by blast
  then obtain df' where h:
    "readmission_section (dtypes_of overflow_table) None (new_frame (cleaning overflow_table))
       = Continue (df', [Erro_na_identificacao ''OverflowError'', Aviso_coluna_com_zeros])"
    and zero: "\<forall>r\<in>set df'. readmitido_30d r = Some 0"
    and same: "mset (map loaded_row.truncate df') = mset (cleaning overflow_table)"
    by blast
  from same have "length (map loaded_row.truncate df') = length (cleaning overflow_table)"
    by (rule mset_eq_length)
  then have len': "length df' = Suc (Suc (Suc (Suc 0)))"
    by (simp only: length_map ev_length_overflow)
  from zero have "map readmitido_30d df' = replicate (length df') (Some 0)"
    by (rule map_const_replicate)
  also have "\<dots> = [Some 0, Some 0, Some 0, Some 0]"
    by (simp only: len' replicate.simps)
  finally have z: "map readmitido_30d df' = [Some 0, Some 0, Some 0, Some 0]" .
  from raised h z
  have B: "\<exists>partial df'.
          identify_readmissions (dtypes_of overflow_table) (new_frame (cleaning overflow_table))
            = Inl (''OverflowError'', partial)
        \<and> readmission_section (dtypes_of overflow_table) None (new_frame (cleaning overflow_table))
            = Continue (df', [Erro_na_identificacao ''OverflowError'', Aviso_coluna_com_zeros])
        \<and> map readmitido_30d df' = [Some 0, Some 0, Some 0, Some 0]"
    by (intro exI [of _ partial] exI [of _ df'] conjI)
  txt \<open>the table whose column \<open>sexo\<close> has a missing value: the key prints it as a float\<close>
  note fl = readmitido_30d_unless_overflow [of float_table, unfolded Let_def]
  from completes_and_rows(1) [OF fl ev_near_float] obtain outf where
    outf: "identify_readmissions (dtypes_of float_table) (new_frame (cleaning float_table))
       = Inr outf" ..
  note valsf = ev_out_float [OF outf]
  from valsf have "length (map ?f outf) = 3" by simp
  then have ltf: "0 < length outf" by simp
  have "?f (outf ! 0) = map ?f outf ! 0" using ltf by (simp only: nth_map)
  then have rowf: "?f (outf ! 0)
      = (Some (Num 355030), Some 0, Some 1, Some ''01310'', Some 100, Some 110, Some 0)"
    unfolding valsf by simp
  from completes_and_rows(2) [OF fl outf] ltf obtain kf nf sf cf muf where
    vf: "nasc (outf ! 0) = Some nf" "sexo (outf ! 0) = Some sf" "cep_str (outf ! 0) = Some cf"
      "munic_res (outf ! 0) = Some muf"
    and kf: "kf = astype_str (munic_res_dtype (dtypes_of float_table)) (Some muf) @ ''|''
                    @ strftime_ymd nf @ ''|''
                    @ str_number (sexo_dtype (dtypes_of float_table)) sf @ ''|'' @ cf"
    and pf: "ident_proxy (outf ! 0) = Some kf"
    by blast
  from vf rowf have "nf = 0" "sf = 1" "cf = ''01310''" "muf = Num 355030"
    by simp_all
  with kf pf have "ident_proxy (outf ! 0) = Some ''355030|1970-01-01|1.0|01310''"
    by (simp add: ev_dtypes_float astype_str_def str_number_def str_int_examples
        strftime_ymd_epoch)
  with outf have F: "\<exists>out. identify_readmissions (dtypes_of float_table)
        (new_frame (cleaning float_table)) = Inr out
        \<and> ident_proxy (out ! 0) = Some ''355030|1970-01-01|1.0|01310''"
    by (intro exI [of _ outf] conjI)
  from A B F show ?thesis by (intro conjI)
qed

section \<open>Theorem on the exception handler of the readmission step\<close>

lemma run_statements_preserves:
  assumes "\<forall>s\<in>set ss. \<forall>d d'. s d = Inr d' \<longrightarrow> P d' = P d"
  shows "run_statements ss fault df = Inl (e, p) \<Longrightarrow> P p = P df"
  using assms
proof (induction ss fault df rule: run_statements.induct)
  case (1 fault df)
  then show ?case by simp
next
  case (2 s ss df)
  show ?case
  proof (cases "s df")
    case (Inl e')
    with 2 show ?thesis by simp
  next
    case (Inr df')
    with 2 have "P p = P df'" by simp
    moreover from 2(3) Inr have "P df' = P df" by simp
    ultimately show ?thesis by simp
  qed
next
  case (3 s ss e df)
  then show ?case by simp
next
  case (4 s ss k e0 df)
  show ?case
  proof (cases "s df")
    case (Inl e')
    with 4 show ?thesis by simp
  next
    case (Inr df')
    with 4 have "P p = P df'" by simp
    moreover from 4(3) Inr have "P df' = P df" by simp
    ultimately show ?thesis by simp
  qed
qed

lemma run_statements_fault:
  "k < length ss \<Longrightarrow>
   \<exists>msg p. run_statements ss (Some (k, e)) df = Inl (msg, p)
     \<and> (msg = e \<or> (\<exists>i<k. \<exists>d. (ss ! i) d = Inl msg))"
proof (induction ss arbitrary: k df)
  case Nil
  then show ?case by simp
next
  case (Cons s ss)
  show ?case
  proof (cases k)
    case 0
    then show ?thesis by simp
  next
    case (Suc k')
    show ?thesis
    proof (cases "s df")
      case (Inl e')
      have 1: "run_statements (s # ss) (Some (k, e)) df = Inl (e', df)"
        using Inl Suc by simp
      have "0 < k \<and> ((s # ss) ! 0) df = Inl e'"
        using Inl Suc by simp
      then have 2: "e' = e \<or> (\<exists>i<k. \<exists>d. ((s # ss) ! i) d = Inl e')"
        by blast
      from 1 2 show ?thesis by (intro exI [of _ e'] exI [of _ df] conjI)
    next
      case (Inr df')
      from Cons.prems Suc have "k' < length ss" by simp
      from Cons.IH [OF this, of df'] obtain msg p where
        r: "run_statements ss (Some (k', e)) df' = Inl (msg, p)"
        and m: "msg = e \<or> (\<exists>i<k'. \<exists>d. (ss ! i) d = Inl msg)"
        by blast
      from m have "msg = e \<or> (\<exists>i<Suc k'. \<exists>d. ((s # ss) ! i) d = Inl msg)"
      proof
        assume "msg = e"
        then show ?thesis ..
      next
        assume "\<exists>i<k'. \<exists>d. (ss ! i) d = Inl msg"
        then obtain i d where "i < k'" "(ss ! i) d = Inl msg" by blast
        then have "Suc i < Suc k'" "((s # ss) ! Suc i) d = Inl msg" by simp_all
        then show ?thesis by blast
      qed
      with r Inr Suc show ?thesis by simp
    qed
  qed
qed

lemma try_body_raises:
  "i < length (try_body dts) \<Longrightarrow> (try_body dts ! i) d = Inl msg \<Longrightarrow>
   i = 6 \<and> msg = ''OverflowError''"
  by (auto simp: try_body_def returns_def fill_intervalo_dias_def less_Suc_eq nth_Cons'
      split: if_splits)

lemma try_body_preserves:
  "\<forall>s\<in>set (try_body dts). \<forall>d d'. s d = Inr d' \<longrightarrow>
     mset (map loaded_row.truncate d') = mset (map loaded_row.truncate d)"
proof (intro ballI allI impI)
  fix s d d' assume "s \<in> set (try_body dts)" and "s d = Inr d'"
  then consider "d' = set_nasc_str d" | "d' = set_ident_proxy dts d" | "d' = sort_values d"
    | "d' = set_dt_saida_anterior d" | "d' = init_intervalo_dias d" | "d' = d"
    | "d' = assign_intervalo_dias d" | "d' = set_readmitido_30d d"
    by (auto simp: try_body_def returns_def fill_intervalo_dias_def split: if_splits)
  then show "mset (map loaded_row.truncate d') = mset (map loaded_row.truncate d)"
    by cases (simp_all only: statement_preserves)
qed

lemma handler_continues:
  assumes "run_statements (try_body dts) fault df = Inl (msg, p)"
  shows "\<exists>df'. readmission_section dts fault df
            = Continue (df', [Erro_na_identificacao msg, Aviso_coluna_com_zeros])
          \<and> (\<forall>r\<in>set df'. readmitido_30d r = Some 0)
          \<and> mset (map loaded_row.truncate df') = mset (map loaded_row.truncate df)"
proof -
  let ?df' = "map (\<lambda>r. r\<lparr>readmitido_30d := Some 0\<rparr>) p"
  from assms have 1: "readmission_section dts fault df
      = Continue (?df', [Erro_na_identificacao msg, Aviso_coluna_com_zeros])"
    by (simp add: readmission_section_def)
  have 2: "\<forall>r\<in>set ?df'. readmitido_30d r = Some 0"
    by simp
  from try_body_preserves assms
  have "mset (map loaded_row.truncate p) = mset (map loaded_row.truncate df)"
    by (rule run_statements_preserves)
  then have 3: "mset (map loaded_row.truncate ?df') = mset (map loaded_row.truncate df)"
    by (simp add: comp_def)
  from 1 2 3 show ?thesis by (intro exI [of _ ?df'] conjI)
qed

text \<open>
  C6. When a statement of the \<^verbatim>\<open>try\<close> block of the readmission step raises, the
  section prints the error and the warning, sets \<open>readmitido_30d\<close> to 0 in every row of
  the table, keeps the rows of the table, and hands the table on to the next section: the
  process does not end. This holds for an exception from outside at statement \<open>k\<close> (the
  error printed is this exception, or the overflow of the date subtraction, statement 6,
  when that comes first), and for the overflow when nothing else raises.
\<close>

theorem readmission_exception_handled:
  assumes "k < length (try_body dts)"
  shows "(\<exists>df' msg. readmission_section dts (Some (k, e)) df
            = Continue (df', [Erro_na_identificacao msg, Aviso_coluna_com_zeros])
          \<and> (msg = e \<or> 6 < k \<and> msg = ''OverflowError'')
          \<and> (\<forall>r\<in>set df'. readmitido_30d r = Some 0)
          \<and> mset (map loaded_row.truncate df') = mset (map loaded_row.truncate df))
     \<and> (\<forall>msg partial. identify_readmissions dts df = Inl (msg, partial) \<longrightarrow>
          (\<exists>df'. readmission_section dts None df
            = Continue (df', [Erro_na_identificacao msg, Aviso_coluna_com_zeros])
          \<and> (\<forall>r\<in>set df'. readmitido_30d r = Some 0)
          \<and> mset (map loaded_row.truncate df') = mset (map loaded_row.truncate df)))"
proof (rule conjI)
  from run_statements_fault [OF assms, of e df] obtain msg p where
    r: "run_statements (try_body dts) (Some (k, e)) df = Inl (msg, p)"
    and m: "msg = e \<or> (\<exists>i<k. \<exists>d. (try_body dts ! i) d = Inl msg)"
    by blast
  from m have m': "msg = e \<or> 6 < k \<and> msg = ''OverflowError''"
  proof
    assume "msg = e"
    then show ?thesis ..
  next
    assume "\<exists>i<k. \<exists>d. (try_body dts ! i) d = Inl msg"
    then obtain i d where i: "i < k" and d: "(try_body dts ! i) d = Inl msg" by blast
    from i assms have "i < length (try_body dts)" by simp
    from try_body_raises [OF this d] i show ?thesis by simp
  qed
  from handler_continues [OF r] obtain df' where
    "readmission_section dts (Some (k, e)) df
            = Continue (df', [Erro_na_identificacao msg, Aviso_coluna_com_zeros])"
    "\<forall>r\<in>set df'. readmitido_30d r = Some 0"
    "mset (map loaded_row.truncate df') = mset (map loaded_row.truncate df)"
    by blast
  with m' show "\<exists>df' msg. readmission_section dts (Some (k, e)) df
            = Continue (df', [Erro_na_identificacao msg, Aviso_coluna_com_zeros])
          \<and> (msg = e \<or> 6 < k \<and> msg = ''OverflowError'')
          \<and> (\<forall>r\<in>set df'. readmitido_30d r = Some 0)
          \<and> mset (map loaded_row.truncate df') = mset (map loaded_row.truncate df)"
    by (intro exI [of _ df'] exI [of _ msg] conjI)
next
  show "\<forall>msg partial. identify_readmissions dts df = Inl (msg, partial) \<longrightarrow>
          (\<exists>df'. readmission_section dts None df
            = Continue (df', [Erro_na_identificacao msg, Aviso_coluna_com_zeros])
          \<and> (\<forall>r\<in>set df'. readmitido_30d r = Some 0)
          \<and> mset (map loaded_row.truncate df') = mset (map loaded_row.truncate df))"
    unfolding identify_readmissions_def by (intro allI impI) (rule handler_continues)
qed

theorem readmission_exception_handled_witness:
  "(3::nat) < length (try_body (dtypes_of example_table))
   \<and> (\<exists>df'. readmission_section (dtypes_of example_table) (Some (3, ''MemoryError''))
              (new_frame (cleaning example_table))
            = Continue (df', [Erro_na_identificacao ''MemoryError'', Aviso_coluna_com_zeros])
        \<and> map readmitido_30d df' = [Some 0, Some 0, Some 0])
   \<and> (\<exists>partial df'.
          identify_readmissions (dtypes_of overflow_table) (new_frame (cleaning overflow_table))
            = Inl (''OverflowError'', partial)
        \<and> readmission_section (dtypes_of overflow_table) None (new_frame (cleaning overflow_table))
            = Continue (df', [Erro_na_identificacao ''OverflowError'', Aviso_coluna_com_zeros])
        \<and> map readmitido_30d df' = [Some 0, Some 0, Some 0, Some 0])"
proof -
  have k: "(3::nat) < length (try_body (dtypes_of example_table))"
    by (simp add: try_body_def)
  have k': "(3::nat) < length (try_body (dtypes_of overflow_table))"
    by (simp add: try_body_def)
  txt \<open>an exception from outside at the fourth statement\<close>
  note ex = readmission_exception_handled [OF k, of "''MemoryError''"
      "new_frame (cleaning example_table)"]
  from ex have "\<exists>df' msg. readmission_section (dtypes_of example_table) (Some (3, ''MemoryError''))
              (new_frame (cleaning example_table))
            = Continue (df', [Erro_na_identificacao msg, Aviso_coluna_com_zeros])
          \<and> (msg = ''MemoryError'' \<or> (6::nat) < 3 \<and> msg = ''OverflowError'')
          \<and> (\<forall>r\<in>set df'. readmitido_30d r = Some 0)
          \<and> mset (map loaded_row.truncate df')
              = mset (map loaded_row.truncate (new_frame (cleaning example_table)))"
    by (rule conjunct1)
  then obtain df' msg where 0:
    "readmission_section (dtypes_of example_table) (Some (3, ''MemoryError''))
              (new_frame (cleaning example_table))
            = Continue (df', [Erro_na_identificacao msg, Aviso_coluna_com_zeros])"
    and m: "msg = ''MemoryError'' \<or> (6::nat) < 3 \<and> msg = ''OverflowError''"
    and 2: "\<forall>r\<in>set df'. readmitido_30d r = Some 0"
    and 3: "mset (map loaded_row.truncate df')
          = mset (map loaded_row.truncate (new_frame (cleaning example_table)))"
    by blast
  from m have msg: "msg = ''MemoryError''" by simp
  from 0 have 1:
    "readmission_section (dtypes_of example_table) (Some (3, ''MemoryError''))
              (new_frame (cleaning example_table))
            = Continue (df', [Erro_na_identificacao ''MemoryError'', Aviso_coluna_com_zeros])"
    by (simp only: msg)
  from 3 have "length (map loaded_row.truncate df')
      = length (map loaded_row.truncate (new_frame (cleaning example_table)))"
    by (rule mset_eq_length)
  then have "length df' = length (cleaning example_table)"
    by (simp only: length_map new_frame_def)
  also have "\<dots> = Suc (Suc (Suc 0))"
    by (simp only: ev_clean list.size)
  finally have len: "length df' = Suc (Suc (Suc 0))" .
  from 2 have "map readmitido_30d df' = replicate (length df') (Some 0)"
    by (rule map_const_replicate)
  also have "\<dots> = [Some 0, Some 0, Some 0]"
    by (simp only: len replicate.simps)
  finally have 4: "map readmitido_30d df' = [Some 0, Some 0, Some 0]" .
  from 1 4 have A: "\<exists>df'. readmission_section (dtypes_of example_table) (Some (3, ''MemoryError''))
              (new_frame (cleaning example_table))
            = Continue (df', [Erro_na_identificacao ''MemoryError'', Aviso_coluna_com_zeros])
        \<and> map readmitido_30d df' = [Some 0, Some 0, Some 0]"
    by (intro exI [of _ df'] conjI)
  txt \<open>the overflow of the date subtraction\<close>
  note ov = readmission_exception_handled [OF k', of "''MemoryError''"
      "new_frame (cleaning overflow_table)"]
  from ev_overflow_raises obtain partial where raised:
    "identify_readmissions (dtypes_of overflow_table) (new_frame (cleaning overflow_table))
       = Inl (''OverflowError'', partial)" ..
  from ov have "\<forall>msg partial. identify_readmissions (dtypes_of overflow_table)
          (new_frame (cleaning overflow_table)) = Inl (msg, partial) \<longrightarrow>
          (\<exists>df'. readmission_section (dtypes_of overflow_table) None
                    (new_frame (cleaning overflow_table))
            = Continue (df', [Erro_na_identificacao msg, Aviso_coluna_com_zeros])
          \<and> (\<forall>r\<in>set df'. readmitido_30d r = Some 0)
          \<and> mset (map loaded_row.truncate df')
              = mset (map loaded_row.truncate (new_frame (cleaning overflow_table))))"
    by (rule conjunct2)
  with raised obtain df'' where h:
    "readmission_section (dtypes_of overflow_table) None (new_frame (cleaning overflow_table))
       = Continue (df'', [Erro_na_identificacao ''OverflowError'', Aviso_coluna_com_zeros])"
    and zero: "\<forall>r\<in>set df''. readmitido_30d r = Some 0"
    and same: "mset (map loaded_row.truncate df'')
        = mset (map loaded_row.truncate (new_frame (cleaning overflow_table)))"
    by blast
  from same have "length (map loaded_row.truncate df'')
      = length (map loaded_row.truncate (new_frame (cleaning overflow_table)))"
    by (rule mset_eq_length)
  then have "length df'' = length (cleaning overflow_table)"
    by (simp only: length_map new_frame_def)
  also have "\<dots> = Suc (Suc (Suc (Suc 0)))"
    by (rule ev_length_overflow)
  finally have len': "length df'' = Suc (Suc (Suc (Suc 0)))" .
  from zero have "map readmitido_30d df'' = replicate (length df'') (Some 0)"
    by (rule map_const_replicate)
  also have "\<dots> = [Some 0, Some 0, Some 0, Some 0]"
    by (simp only: len' replicate.simps)
  finally have z: "map readmitido_30d df'' = [Some 0, Some 0, Some 0, Some 0]" .
  from raised h z
  have B: "\<exists>partial df'.
          identify_readmissions (dtypes_of overflow_table) (new_frame (cleaning overflow_table))
            = Inl (''OverflowError'', partial)
        \<and> readmission_section (dtypes_of overflow_table) None (new_frame (cleaning overflow_table))
            = Continue (df', [Erro_na_identificacao ''OverflowError'', Aviso_coluna_com_zeros])
        \<and> map readmitido_30d df' = [Some 0, Some 0, Some 0, Some 0]"
    by (intro exI [of _ partial] exI [of _ df''] conjI)
  from k A B show ?thesis by (intro conjI)
qed

section \<open>Facts about the file operations of a run\<close>

lemma written_append: "written (xs @ ys) = written xs @ written ys"
  by (induction xs rule: written.induct) simp_all

lemma written_map_Write_file: "written (map Write_file ps) = ps"
  by (induction ps) simp_all

lemma written_try_writes:
  "written (try_writes r ps) = (case r of None \<Rightarrow> ps | Some n \<Rightarrow> take n ps)"
  by (simp add: try_writes_def written_map_Write_file)

lemma set_written_try_writes: "set (written (try_writes r ps)) \<subseteq> set ps"
  by (cases r) (auto simp: written_try_writes dest: in_set_takeD)

lemma distinct_written_try_writes: "distinct ps \<Longrightarrow> distinct (written (try_writes r ps))"
  by (cases r) (simp_all add: written_try_writes)

lemma written_take: "\<exists>m. written (take n es) = take m (written es)"
proof (induction es arbitrary: n)
  case Nil
  then show ?case by simp
next
  case (Cons e es)
  show ?case
  proof (cases n)
    case 0
    then show ?thesis by (intro exI [of _ 0]) simp
  next
    case (Suc n')
    from Cons.IH [of n'] obtain m where m: "written (take n' es) = take m (written es)" ..
    show ?thesis
    proof (cases e)
      case (Write_file p)
      with Suc m show ?thesis by (intro exI [of _ "Suc m"]) simp
    next
      case (Makedirs p)
      with Suc m show ?thesis by (intro exI [of _ m]) simp
    next
      case (Read_file p)
      with Suc m show ?thesis by (intro exI [of _ m]) simp
    qed
  qed
qed

lemma in_frame_join:
  assumes "name \<noteq> []" and "CHR ''/'' \<notin> set name"
  shows "in_frame (Write_file (os_path_join output_dir name))"
proof -
  from assms have "hd name \<noteq> CHR ''/''" by (cases name) auto
  then have "os_path_join output_dir name = output_dir @ ''/'' @ name"
    by (simp add: os_path_join_def output_dir_def)
  with assms show ?thesis by auto
qed

lemma in_frame_try_writes:
  assumes "\<forall>p\<in>set ps. in_frame (Write_file p)"
  shows "\<forall>e\<in>set (try_writes r ps). in_frame e"
  using assms by (cases r) (auto simp: try_writes_def dest: in_set_takeD)

lemmas output_path_defs =
  tabela1_csv_def contagem_csv_def figura1_png_def figura1_tiff_def figura2_png_def
  figura2_tiff_def tabela2_csv_def figura3_png_def figura3_tiff_def

lemma output_paths_distinct:
  "distinct [tabela1_csv, contagem_csv, figura1_png, figura1_tiff, figura2_png, figura2_tiff,
     tabela2_csv, figura3_png, figura3_tiff]"
  by (simp add: output_path_defs os_path_join_def output_dir_def)

lemma output_paths_in_frame:
  "\<forall>p\<in>set [tabela1_csv, contagem_csv, figura1_png, figura1_tiff, figura2_png, figura2_tiff,
     tabela2_csv, figura3_png, figura3_tiff]. in_frame (Write_file p)"
  unfolding output_path_defs by (simp add: in_frame_join del: in_frame.simps)

lemma input_csv_not_output:
  "input_csv \<notin> set [tabela1_csv, contagem_csv, figura1_png, figura1_tiff, figura2_png,
     figura2_tiff, tabela2_csv, figura3_png, figura3_tiff]"
  by (simp add: output_path_defs os_path_join_def output_dir_def input_csv_def)

lemma distinct_append_within:
  assumes "distinct xs" and "distinct ys" and "set xs \<subseteq> A" and "set ys \<subseteq> B" and "A \<inter> B = {}"
  shows "distinct (xs @ ys) \<and> set (xs @ ys) \<subseteq> A \<union> B"
  using assms by auto

lemma written_try_writes_within:
  assumes "distinct ps"
  shows "distinct (written (try_writes r ps)) \<and> set (written (try_writes r ps)) \<subseteq> set ps"
  using assms by (simp add: distinct_written_try_writes set_written_try_writes)

lemma exec_regressao_try: "exec_try regressao_try = ([], Some ''AttributeError'')"
  by (simp add: regressao_try_def)

lemma sections_8_9_empty: "sections_8_9 w = []"
  by (simp add: sections_8_9_def exec_regressao_try)

lemma written_sections_8_9:
  "distinct (written (sections_8_9 w))
   \<and> set (written (sections_8_9 w)) \<subseteq> {tabela2_csv} \<union> {figura3_png, figura3_tiff}"
  by (simp add: sections_8_9_empty)

lemma written_sections_5_9:
  assumes "R = [Write_file contagem_csv]
          @ try_writes (figuras_raises w)
              ([figura1_png, figura1_tiff] @ (if b then [figura2_png, figura2_tiff] else []))
          @ (if transformacao_raises w then [] else sections_8_9 w)"
  shows "distinct (written R)
      \<and> set (written R) \<subseteq> {contagem_csv} \<union> ({figura1_png, figura1_tiff, figura2_png, figura2_tiff}
          \<union> ({tabela2_csv} \<union> {figura3_png, figura3_tiff}))"
proof -
  define ps where "ps = [figura1_png, figura1_tiff] @ (if b then [figura2_png, figura2_tiff] else [])"
  define F where "F = written (try_writes (figuras_raises w) ps)"
  define S where "S = written (if transformacao_raises w then [] else sections_8_9 w)"
  have "distinct ps"
    unfolding ps_def using output_paths_distinct by (cases b) simp_all
  then have "distinct F \<and> set F \<subseteq> set ps"
    unfolding F_def by (rule written_try_writes_within)
  moreover have "set ps \<subseteq> {figura1_png, figura1_tiff, figura2_png, figura2_tiff}"
    unfolding ps_def by (cases b) simp_all
  ultimately have F: "distinct F" "set F \<subseteq> {figura1_png, figura1_tiff, figura2_png, figura2_tiff}"
    by blast+
  have S: "distinct S" "set S \<subseteq> {tabela2_csv} \<union> {figura3_png, figura3_tiff}"
    unfolding S_def using written_sections_8_9 [of w]
    by (cases "transformacao_raises w"; simp)+
  have d1: "{figura1_png, figura1_tiff, figura2_png, figura2_tiff}
      \<inter> ({tabela2_csv} \<union> {figura3_png, figura3_tiff}) = {}"
    using output_paths_distinct by simp
  from F S d1 have FS: "distinct (F @ S) \<and> set (F @ S)
      \<subseteq> {figura1_png, figura1_tiff, figura2_png, figura2_tiff}
          \<union> ({tabela2_csv} \<union> {figura3_png, figura3_tiff})"
    by (intro distinct_append_within)
  have d2: "{contagem_csv} \<inter> ({figura1_png, figura1_tiff, figura2_png, figura2_tiff}
          \<union> ({tabela2_csv} \<union> {figura3_png, figura3_tiff})) = {}"
    using output_paths_distinct by simp
  have "distinct [contagem_csv]" "set [contagem_csv] \<subseteq> {contagem_csv}" by simp_all
  with FS d2 have "distinct ([contagem_csv] @ (F @ S)) \<and> set ([contagem_csv] @ (F @ S))
      \<subseteq> {contagem_csv} \<union> ({figura1_png, figura1_tiff, figura2_png, figura2_tiff}
          \<union> ({tabela2_csv} \<union> {figura3_png, figura3_tiff}))"
    by (intro distinct_append_within) blast+
  moreover have "written R = [contagem_csv] @ (F @ S)"
    by (simp only: assms written_append written.simps append.simps F_def S_def ps_def)
  ultimately show ?thesis by (simp only:)
qed

lemma written_sections_3_9:
  "distinct (written (sections_3_9 w))
   \<and> set (written (sections_3_9 w)) \<subseteq>
       {tabela1_csv} \<union> ({contagem_csv} \<union> ({figura1_png, figura1_tiff, figura2_png, figura2_tiff}
          \<union> ({tabela2_csv} \<union> {figura3_png, figura3_tiff})))"
proof -
  define A where "A = written (try_writes (descritiva_raises w) [tabela1_csv])"
  define T where "T = written
       (case readmission_section (dtypes_of (rows w)) (readmissao_raises w)
          (new_frame (cleaning (rows w))) of
          Exit \<Rightarrow> []
        | Continue (df, printed) \<Rightarrow>
            if ''proc_nome'' \<notin> set (columns w) then []
            else
              [Write_file contagem_csv]
              @ try_writes (figuras_raises w)
                  ([figura1_png, figura1_tiff]
                   @ (if df \<noteq> [] then [figura2_png, figura2_tiff] else []))
              @ (if transformacao_raises w then [] else sections_8_9 w))"
  have A: "distinct A \<and> set A \<subseteq> set [tabela1_csv]"
    unfolding A_def by (rule written_try_writes_within) simp
  have T: "distinct T \<and> set T \<subseteq> {contagem_csv}
      \<union> ({figura1_png, figura1_tiff, figura2_png, figura2_tiff}
          \<union> ({tabela2_csv} \<union> {figura3_png, figura3_tiff}))"
  proof (cases "readmission_section (dtypes_of (rows w)) (readmissao_raises w)
          (new_frame (cleaning (rows w)))")
    case Exit
    then show ?thesis unfolding T_def by simp
  next
    case (Continue st)
    obtain df printed where st: "st = (df, printed)" by (cases st)
    show ?thesis
    proof (cases "''proc_nome'' \<notin> set (columns w)")
      case True
      with Continue st show ?thesis unfolding T_def by simp
    next
      case False
      with Continue st written_sections_5_9 [OF refl, of w "df \<noteq> []"] show ?thesis
        unfolding T_def by simp
    qed
  qed
  have d: "{tabela1_csv} \<inter> ({contagem_csv}
      \<union> ({figura1_png, figura1_tiff, figura2_png, figura2_tiff}
          \<union> ({tabela2_csv} \<union> {figura3_png, figura3_tiff}))) = {}"
    using output_paths_distinct by simp
  from A T d have "distinct (A @ T) \<and> set (A @ T) \<subseteq> {tabela1_csv} \<union> ({contagem_csv}
      \<union> ({figura1_png, figura1_tiff, figura2_png, figura2_tiff}
          \<union> ({tabela2_csv} \<union> {figura3_png, figura3_tiff})))"
    by (intro distinct_append_within) simp_all
  moreover have "written (sections_3_9 w) = A @ T"
    by (simp only: sections_3_9_def written_append A_def T_def)
  ultimately show ?thesis by (simp only:)
qed

lemma set_try_writes: "set (try_writes r ps) \<subseteq> Write_file ` set ps"
  by (cases r) (auto simp: try_writes_def dest: in_set_takeD)

lemma events_sections_8_9:
  "set (sections_8_9 w) \<subseteq> Write_file ` {tabela2_csv, figura3_png, figura3_tiff}"
  by (simp add: sections_8_9_empty)

lemma events_sections_3_9:
  "set (sections_3_9 w) \<subseteq> Write_file ` {tabela1_csv, contagem_csv, figura1_png, figura1_tiff,
     figura2_png, figura2_tiff}"
proof -
  let ?all = "{tabela1_csv, contagem_csv, figura1_png, figura1_tiff,
     figura2_png, figura2_tiff}"
  have 1: "set (try_writes (descritiva_raises w) [tabela1_csv]) \<subseteq> Write_file ` ?all"
    using set_try_writes [of "descritiva_raises w" "[tabela1_csv]"] by auto
  have 2: "set (try_writes (figuras_raises w)
      ([figura1_png, figura1_tiff] @ (if b then [figura2_png, figura2_tiff] else [])))
      \<subseteq> Write_file ` ?all" for b
    using set_try_writes [of "figuras_raises w"
        "[figura1_png, figura1_tiff] @ (if b then [figura2_png, figura2_tiff] else [])"]
    by (cases b) auto
  have 3: "set (sections_8_9 w) \<subseteq> Write_file ` ?all"
    by (simp add: sections_8_9_empty)
  have 4: "set (case c of Exit \<Rightarrow> []
        | Continue (df, printed) \<Rightarrow>
            if ''proc_nome'' \<notin> set (columns w) then []
            else
              [Write_file contagem_csv]
              @ try_writes (figuras_raises w)
                  ([figura1_png, figura1_tiff]
                   @ (if df \<noteq> [] then [figura2_png, figura2_tiff] else []))
              @ (if transformacao_raises w then [] else sections_8_9 w)) \<subseteq> Write_file ` ?all"
    for c :: "(frame \<times> printed list) control"
  proof (cases c)
    case Exit
    then show ?thesis by simp
  next
    case (Continue st)
    obtain df printed where "st = (df, printed)" by (cases st)
    with Continue 2 [of "df \<noteq> []"] 3 show ?thesis
      by (cases "transformacao_raises w"; cases "''proc_nome'' \<notin> set (columns w)") simp_all
  qed
  from 1 4 show ?thesis
    unfolding sections_3_9_def by (simp only: set_append Un_subset_iff)
qed

lemma in_frame_sections_3_9: "\<forall>e\<in>set (sections_3_9 w). in_frame e"
proof
  fix e assume "e \<in> set (sections_3_9 w)"
  with events_sections_3_9 [of w] obtain p where "e = Write_file p"
    and "p \<in> set [tabela1_csv, contagem_csv, figura1_png, figura1_tiff, figura2_png,
      figura2_tiff, tabela2_csv, figura3_png, figura3_tiff]"
    by auto
  with output_paths_in_frame show "in_frame e" by blast
qed

lemma written_section1: "written (section1 w) = []"
  by (simp add: section1_def)

lemma written_section2_load: "written (fst (section2_load w)) = []"
  by (cases "load w") (simp_all add: section2_load_def)

lemma in_frame_section2_load: "\<forall>e\<in>set (fst (section2_load w)). in_frame e"
  by (cases "load w") (simp_all add: section2_load_def)

lemma run_cases:
  "run w = section1 w @ fst (section2_load w) @ sections_3_9 w
   \<or> run w = section1 w @ fst (section2_load w)"
  by (simp add: run_def)

lemma written_run: "distinct (written (run w))
   \<and> set (written (run w)) \<subseteq> {tabela1_csv, contagem_csv, figura1_png, figura1_tiff,
     figura2_png, figura2_tiff, tabela2_csv, figura3_png, figura3_tiff}"
proof -
  from run_cases [of w] have "written (run w) = written (sections_3_9 w) \<or> written (run w) = []"
    by (auto simp: written_append written_section1 written_section2_load)
  with written_sections_3_9 [of w] show ?thesis by auto
qed

lemma in_frame_section1: "\<forall>e\<in>set (section1 w). in_frame e"
  by (simp add: section1_def)

lemma in_frame_run: "\<forall>e\<in>set (run w). in_frame e"
  using run_cases [of w] in_frame_section1 [of w] in_frame_sections_3_9 [of w]
    in_frame_section2_load [of w]
  by auto

lemma no_makedirs_after_section1:
  "Makedirs p \<notin> set (fst (section2_load w))" "Makedirs p \<notin> set (sections_3_9 w)"
proof -
  show "Makedirs p \<notin> set (fst (section2_load w))"
    by (cases "load w") (simp_all add: section2_load_def)
  show "Makedirs p \<notin> set (sections_3_9 w)"
    using events_sections_3_9 [of w] by auto
qed

lemma run_makedirs:
  "\<exists>rest. run w = section1 w @ rest \<and> Makedirs output_dir \<notin> set rest"
  using run_cases [of w] no_makedirs_after_section1 [of output_dir w] by auto

lemma ev_section_example:
  "\<exists>df msgs. readmission_section (dtypes_of example_table) None
       (new_frame (cleaning example_table)) = Continue (df, msgs) \<and> df \<noteq> []"
  unfolding ev_clean ev_dtypes by (simp add: readmission_section_def readmission_defs)

lemma ev_run_example:
  "run example_world =
     [Makedirs output_dir, Read_file input_csv, Write_file tabela1_csv,
      Write_file contagem_csv, Write_file figura1_png, Write_file figura1_tiff]"
proof -
  from ev_section_example obtain df msgs where
    "readmission_section (dtypes_of example_table) None (new_frame (cleaning example_table))
       = Continue (df, msgs)"
    by blast
  then show ?thesis
    by (simp add: run_def example_world_def section1_def section2_load_def missing_cols_def
        cols_to_check_na_def sections_3_9_def sections_8_9_empty try_writes_def)
qed

lemma ev_run_example_no_fault:
  "run (example_world\<lparr>figuras_raises := None\<rparr>) =
     [Makedirs output_dir, Read_file input_csv, Write_file tabela1_csv,
      Write_file contagem_csv, Write_file figura1_png, Write_file figura1_tiff,
      Write_file figura2_png, Write_file figura2_tiff]"
proof -
  from ev_section_example obtain df msgs where
    "readmission_section (dtypes_of example_table) None (new_frame (cleaning example_table))
       = Continue (df, msgs)" and "df \<noteq> []"
    by blast
  then show ?thesis
    by (simp add: run_def example_world_def section1_def section2_load_def missing_cols_def
        cols_to_check_na_def sections_3_9_def sections_8_9_empty try_writes_def)
qed

section \<open>Theorem on the output frame\<close>

text \<open>
  C7. In every run, whatever is raised and wherever the run is cut short: every file
  operation is the creation of the output directory, a read of the input file or a write
  of a file directly inside the output directory; no file is written twice; the input
  file is not written; the directory is not created when it exists; when it does not
  exist, its creation is the first operation of the run and happens once, and it happens
  in every run that is not cut short.
\<close>

theorem output_frame:
  "let t = script_events w in
     (\<forall>e\<in>set t. in_frame e)
     \<and> distinct (written t)
     \<and> input_csv \<notin> set (written t)
     \<and> (dir_exists w \<longrightarrow> Makedirs output_dir \<notin> set t)
     \<and> (\<not> dir_exists w \<and> t \<noteq> [] \<longrightarrow>
          hd t = Makedirs output_dir \<and> Makedirs output_dir \<notin> set (tl t))
     \<and> (\<not> dir_exists w \<and> crash_after w = None \<longrightarrow> t \<noteq> [])"
proof -
  define t where "t = script_events w"
  obtain n where t: "t = take n (run w)"
  proof (cases "crash_after w")
    case None
    then have "t = take (length (run w)) (run w)" by (simp add: t_def script_events_def)
    then show ?thesis by (rule that)
  next
    case (Some n)
    then have "t = take n (run w)" by (simp add: t_def script_events_def)
    then show ?thesis by (rule that)
  qed
  have 1: "\<forall>e\<in>set t. in_frame e"
    using in_frame_run [of w] unfolding t by (meson in_set_takeD)
  from written_take [of n "run w"] obtain m where m: "written t = take m (written (run w))"
    unfolding t ..
  from written_run [of w] have 2: "distinct (written t)"
    unfolding m by simp
  have "set (written t) \<subseteq> set (written (run w))"
    unfolding m by (rule set_take_subset)
  with written_run [of w] input_csv_not_output have 3: "input_csv \<notin> set (written t)"
    by auto
  from run_makedirs [of w] obtain rest where rest: "run w = section1 w @ rest"
    and nomk: "Makedirs output_dir \<notin> set rest"
    by blast
  have 4: "Makedirs output_dir \<notin> set t" if "dir_exists w"
  proof -
    from that rest have "run w = rest" by (simp add: section1_def)
    with nomk show ?thesis unfolding t by (metis in_set_takeD)
  qed
  have 5: "hd t = Makedirs output_dir \<and> Makedirs output_dir \<notin> set (tl t)"
    if "\<not> dir_exists w \<and> t \<noteq> []"
  proof -
    from that rest have r: "run w = Makedirs output_dir # rest" by (simp add: section1_def)
    from that have "n \<noteq> 0" unfolding t by auto
    then obtain n' where "n = Suc n'" by (cases n) auto
    with r have "t = Makedirs output_dir # take n' rest" unfolding t by simp
    with nomk show ?thesis by (auto dest: in_set_takeD)
  qed
  have 6: "t \<noteq> []" if "\<not> dir_exists w \<and> crash_after w = None"
  proof -
    from that rest have "run w = Makedirs output_dir # rest" by (simp add: section1_def)
    with that show ?thesis by (simp add: t_def script_events_def)
  qed
  from 1 2 3 4 5 6 show ?thesis
    unfolding Let_def t_def by blast
qed

theorem output_frame_witness:
  "\<not> dir_exists example_world \<and> crash_after example_world = None
   \<and> script_events example_world \<noteq> []
   \<and> hd (script_events example_world) = Makedirs output_dir
   \<and> Write_file figura1_tiff \<in> set (script_events example_world)
   \<and> in_frame (Write_file figura1_tiff)
   \<and> distinct (written (script_events example_world))
   \<and> dir_exists (example_world\<lparr>dir_exists := True, crash_after := Some 4\<rparr>)
   \<and> script_events (example_world\<lparr>dir_exists := True, crash_after := Some 4\<rparr>)
       = [Read_file input_csv, Write_file tabela1_csv, Write_file contagem_csv,
          Write_file figura1_png]
   \<and> Makedirs output_dir
       \<notin> set (script_events (example_world\<lparr>dir_exists := True, crash_after := Some 4\<rparr>))"
proof -
  let ?w2 = "example_world\<lparr>dir_exists := True, crash_after := Some 4\<rparr>"
  have a: "\<not> dir_exists example_world" "crash_after example_world = None"
    by (simp_all add: example_world_def)
  have ev: "script_events example_world =
     [Makedirs output_dir, Read_file input_csv, Write_file tabela1_csv,
      Write_file contagem_csv, Write_file figura1_png, Write_file figura1_tiff]"
    by (simp add: script_events_def a ev_run_example)
  then have mem: "Write_file figura1_tiff \<in> set (script_events example_world)"
    by simp
  note all = output_frame [of example_world, unfolded Let_def]
  from all have f: "\<forall>e\<in>set (script_events example_world). in_frame e"
    by (elim conjE)
  from all have d: "distinct (written (script_events example_world))"
    by (elim conjE)
  from all have h: "\<not> dir_exists example_world \<and> script_events example_world \<noteq> [] \<longrightarrow>
          hd (script_events example_world) = Makedirs output_dir
          \<and> Makedirs output_dir \<notin> set (tl (script_events example_world))"
    by (elim conjE)
  from all have ne: "\<not> dir_exists example_world \<and> crash_after example_world = None \<longrightarrow>
          script_events example_world \<noteq> []"
    by (elim conjE)
  from ne a have ne': "script_events example_world \<noteq> []" by (simp only: simp_thms)
  with h a have hd: "hd (script_events example_world) = Makedirs output_dir" by (simp only: simp_thms)
  from f mem have fr: "in_frame (Write_file figura1_tiff)" by (rule bspec)
  have b: "dir_exists ?w2" by simp
  from ev_section_example obtain df msgs where
    "readmission_section (dtypes_of example_table) None (new_frame (cleaning example_table))
       = Continue (df, msgs)"
    by blast
  then have "run ?w2 =
     [Read_file input_csv, Write_file tabela1_csv,
      Write_file contagem_csv, Write_file figura1_png, Write_file figura1_tiff]"
    by (simp add: run_def example_world_def section1_def section2_load_def missing_cols_def
      cols_to_check_na_def sections_3_9_def sections_8_9_empty try_writes_def)
  then have ev2: "script_events ?w2 = [Read_file input_csv, Write_file tabela1_csv,
      Write_file contagem_csv, Write_file figura1_png]"
    by (simp add: script_events_def)
  from output_frame [of ?w2, unfolded Let_def]
  have "dir_exists ?w2 \<longrightarrow> Makedirs output_dir \<notin> set (script_events ?w2)"
    by (elim conjE)
  with b have nm: "Makedirs output_dir \<notin> set (script_events ?w2)" by (rule rev_mp)
  from a ne' hd mem fr d b ev2 nm show ?thesis by (intro conjI)
qed

section \<open>Theorem on the regression table\<close>

text \<open>
  C2. The \<^verbatim>\<open>try\<close> block of section 8 raises \<^verbatim>\<open>AttributeError\<close> at its second statement,
  before the model is fitted and before the table is written. So no run writes
  \<^verbatim>\<open>Tabela2_Regressao_Logistica_Readmissao.csv\<close>, nor the two files of the forest plot,
  which section 9 draws from the table. The run on the example table, in which nothing
  else raises and whose cleaned table has three rows, writes the two tables of sections 3
  and 5 and the four files of the two figures, and nothing after them.
\<close>

theorem regression_table_never_saved:
  "exec_try regressao_try = ([], Some ''AttributeError'')
   \<and> Write_file tabela2_csv \<notin> set (script_events w)
   \<and> Write_file figura3_png \<notin> set (script_events w)
   \<and> Write_file figura3_tiff \<notin> set (script_events w)
   \<and> length (cleaning (rows (example_world\<lparr>figuras_raises := None\<rparr>))) = 3
   \<and> script_events (example_world\<lparr>figuras_raises := None\<rparr>) =
       [Makedirs output_dir, Read_file input_csv, Write_file tabela1_csv,
        Write_file contagem_csv, Write_file figura1_png, Write_file figura1_tiff,
        Write_file figura2_png, Write_file figura2_tiff]"
proof -
  have never: "Write_file p \<notin> set (script_events w)"
    if p: "p \<notin> {tabela1_csv, contagem_csv, figura1_png, figura1_tiff, figura2_png, figura2_tiff}"
    for p
  proof
    assume "Write_file p \<in> set (script_events w)"
    then have "Write_file p \<in> set (run w)"
      by (cases "crash_after w") (auto simp: script_events_def dest: in_set_takeD)
    moreover have "Write_file p \<notin> set (section1 w)"
      by (simp add: section1_def)
    moreover have "Write_file p \<notin> set (fst (section2_load w))"
      by (cases "load w") (simp_all add: section2_load_def)
    ultimately have "Write_file p \<in> set (sections_3_9 w)"
      using run_cases [of w] by auto
    with events_sections_3_9 [of w] p show False by auto
  qed
  have 1: "tabela2_csv \<notin> {tabela1_csv, contagem_csv, figura1_png, figura1_tiff, figura2_png,
      figura2_tiff}"
    and 2: "figura3_png \<notin> {tabela1_csv, contagem_csv, figura1_png, figura1_tiff, figura2_png,
      figura2_tiff}"
    and 3: "figura3_tiff \<notin> {tabela1_csv, contagem_csv, figura1_png, figura1_tiff, figura2_png,
      figura2_tiff}"
    using output_paths_distinct by auto
  have 4: "length (cleaning (rows (example_world\<lparr>figuras_raises := None\<rparr>))) = 3"
    by (simp add: example_world_def ev_clean)
  have 5: "script_events (example_world\<lparr>figuras_raises := None\<rparr>) =
       [Makedirs output_dir, Read_file input_csv, Write_file tabela1_csv,
        Write_file contagem_csv, Write_file figura1_png, Write_file figura1_tiff,
        Write_file figura2_png, Write_file figura2_tiff]"
  proof -
    have "crash_after (example_world\<lparr>figuras_raises := None\<rparr>) = None"
      by (simp add: example_world_def)
    then show ?thesis
      by (simp only: script_events_def option.case ev_run_example_no_fault)
  qed
  from exec_regressao_try never [OF 1] never [OF 2] never [OF 3] 4 5 show ?thesis
    by (intro conjI)
qed

section \<open>Theorems on procedure categorisation\<close>

text \<open>
  C4. For every input value, a missing one (\<open>None\<close>) included, \<open>categorize_procedure_v2\<close>
  returns one of the five category labels, and the five labels are different strings. The
  function is defined without recursion, by the chain of tests that ends in an
  \<^verbatim>\<open>else\<close> branch, and the substring test recurses on the list of characters, so it
  returns on every input.
\<close>

theorem categorize_procedure_v2_total:
  "categorize_procedure_v2 v \<in>
     {Cirurgia_Grande, Procedimentos_Especificos, Cirurgia_Media_Pequena,
      Outros_procedimentos, Conservador}
   \<and> distinct [Cirurgia_Grande, Procedimentos_Especificos, Cirurgia_Media_Pequena,
        Outros_procedimentos, Conservador]"
proof
  show "categorize_procedure_v2 v \<in>
     {Cirurgia_Grande, Procedimentos_Especificos, Cirurgia_Media_Pequena,
      Outros_procedimentos, Conservador}"
    by (simp add: categorize_procedure_v2_def Let_def)
  show "distinct [Cirurgia_Grande, Procedimentos_Especificos, Cirurgia_Media_Pequena,
        Outros_procedimentos, Conservador]"
    by (simp add: Procedimentos_Especificos_def Cirurgia_Grande_def
        Cirurgia_Media_Pequena_def Outros_procedimentos_def Conservador_def)
qed

text \<open>
  C5. A name whose lower-case form contains one of the major-surgery keywords is
  categorised as \<open>Cirurgia Grande\<close>, whatever else it contains. A name whose lower-case form
  contains \<open>artrotom\<close> or \<open>sinovectomia\<close> together with \<open>corpo estranho\<close>, and no
  major-surgery keyword, is never categorised as \<open>Procedimentos Especificos\<close>; the same
  holds when the name as given (a text cell) contains these keywords.
\<close>

theorem categorize_procedure_v2_priority:
  "(any_kw_in kw_grande (proc_nome_lower v) \<longrightarrow>
      categorize_procedure_v2 v = Cirurgia_Grande)
   \<and> (any_kw_in kw_especificos (proc_nome_lower v)
        \<and> contains ''corpo estranho'' (proc_nome_lower v)
        \<and> \<not> any_kw_in kw_grande (proc_nome_lower v) \<longrightarrow>
      categorize_procedure_v2 v \<noteq> Procedimentos_Especificos)
   \<and> (v = Some (Txt name) \<and> any_kw_in kw_especificos name
        \<and> contains ''corpo estranho'' name
        \<and> \<not> any_kw_in kw_grande (lower name) \<longrightarrow>
      categorize_procedure_v2 v \<noteq> Procedimentos_Especificos)"
proof (intro conjI impI)
  assume "any_kw_in kw_grande (proc_nome_lower v)"
  then show "categorize_procedure_v2 v = Cirurgia_Grande"
    by (simp add: categorize_procedure_v2_def Let_def)
next
  assume "any_kw_in kw_especificos (proc_nome_lower v)
        \<and> contains ''corpo estranho'' (proc_nome_lower v)
        \<and> \<not> any_kw_in kw_grande (proc_nome_lower v)"
  then show "categorize_procedure_v2 v \<noteq> Procedimentos_Especificos"
    using labels_distinct by (simp add: categorize_procedure_v2_def Let_def)
next
  assume a: "v = Some (Txt name) \<and> any_kw_in kw_especificos name
        \<and> contains ''corpo estranho'' name
        \<and> \<not> any_kw_in kw_grande (lower name)"
  have "lower ''corpo estranho'' = ''corpo estranho''" by code_simp
  with a have "contains ''corpo estranho'' (lower name)" by (simp add: contains_lower)
  moreover from a have "proc_nome_lower v = lower name"
    by (simp add: proc_nome_lower_def)
  ultimately show "categorize_procedure_v2 v \<noteq> Procedimentos_Especificos"
    using labels_distinct by (simp add: categorize_procedure_v2_def Let_def)
qed

theorem categorize_procedure_v2_priority_witness:
  "categorize_procedure_v2 (Some (Txt ''ARTROPLASTIA com artrotomia'')) = Cirurgia_Grande
   \<and> any_kw_in kw_especificos (proc_nome_lower (Some (Txt ''Artrotomia p/ CORPO ESTRANHO'')))
   \<and> contains ''corpo estranho'' (proc_nome_lower (Some (Txt ''Artrotomia p/ CORPO ESTRANHO'')))
   \<and> \<not> any_kw_in kw_grande (proc_nome_lower (Some (Txt ''Artrotomia p/ CORPO ESTRANHO'')))
   \<and> categorize_procedure_v2 (Some (Txt ''Artrotomia p/ CORPO ESTRANHO''))
       \<noteq> Procedimentos_Especificos
   \<and> any_kw_in kw_especificos ''sinovectomia e corpo estranho''
   \<and> contains ''corpo estranho'' ''sinovectomia e corpo estranho''
   \<and> \<not> any_kw_in kw_grande (lower ''sinovectomia e corpo estranho'')
   \<and> categorize_procedure_v2 (Some (Txt ''sinovectomia e corpo estranho''))
       \<noteq> Procedimentos_Especificos"
proof -
  have g: "any_kw_in kw_grande (proc_nome_lower (Some (Txt ''ARTROPLASTIA com artrotomia'')))"
    by code_simp
  have e1: "any_kw_in kw_especificos (proc_nome_lower (Some (Txt ''Artrotomia p/ CORPO ESTRANHO'')))"
    by code_simp
  have e2: "contains ''corpo estranho'' (proc_nome_lower (Some (Txt ''Artrotomia p/ CORPO ESTRANHO'')))"
    by code_simp
  have e3: "\<not> any_kw_in kw_grande (proc_nome_lower (Some (Txt ''Artrotomia p/ CORPO ESTRANHO'')))"
    by code_simp
  have r1: "any_kw_in kw_especificos ''sinovectomia e corpo estranho''"
    by code_simp
  have r2: "contains ''corpo estranho'' ''sinovectomia e corpo estranho''"
    by code_simp
  have r3: "\<not> any_kw_in kw_grande (lower ''sinovectomia e corpo estranho'')"
    by code_simp
  show ?thesis
    using g e1 e2 e3 r1 r2 r3
      categorize_procedure_v2_priority [of "Some (Txt ''ARTROPLASTIA com artrotomia'')"]
      categorize_procedure_v2_priority [of "Some (Txt ''Artrotomia p/ CORPO ESTRANHO'')"]
      categorize_procedure_v2_priority [of "Some (Txt ''sinovectomia e corpo estranho'')"
        "''sinovectomia e corpo estranho''"]
    by blast
qed

end
